theory Spec2Isabelle
  imports Complex_Main "HOL-Library.Word" "HOL-Library.Monad_Syntax"
begin

section \<open>Conventions of the embedding\<close>

text \<open>
  The C++ sources are embedded function by function.  A \<^verbatim>\<open>double\<close> (and
  \<^verbatim>\<open>HighsFloat\<close>) that is finite by its role is modelled by \<^typ>\<open>real\<close>:
  arithmetic is exact, there is no rounding and no NaN.  Where the source stores or
  compares infinite values (bounds, ranges, step lengths) the model uses a type of
  reals extended by the infinities and NaN, defined below.  \<^verbatim>\<open>HighsInt\<close> is modelled by \<^typ>\<open>int\<close>,
  \<^verbatim>\<open>unsigned int\<close> and \<^verbatim>\<open>size_t\<close> counters by \<^typ>\<open>nat\<close>; sizes stay far below
  the machine limits, so no wrap-around is written out for them.

  A \<^verbatim>\<open>std::vector\<close> is a list.  Reading or writing it outside its size is undefined
  behaviour in C++; the model makes that visible: a checked access returns \<open>None\<close>,
  and a function that performs one returns \<open>None\<close> as a whole.
\<close>

datatype HighsStatus = kOk | kWarning | kError

definition rd :: "'a list \<Rightarrow> nat \<Rightarrow> 'a option" where
  "rd xs i = (if i < length xs then Some (xs ! i) else None)"

definition wr :: "'a list \<Rightarrow> nat \<Rightarrow> 'a \<Rightarrow> 'a list option" where
  "wr xs i v = (if i < length xs then Some (xs[i := v]) else None)"

text \<open>
  \<^verbatim>\<open>for (i = i0; i < n; i++) body\<close> over a state, where the body may hit
  undefined behaviour.
\<close>

function for_loop :: "nat \<Rightarrow> nat \<Rightarrow> (nat \<Rightarrow> 's \<Rightarrow> 's option) \<Rightarrow> 's \<Rightarrow> 's option" where
  "for_loop i n body s =
     (if i < n then (case body i s of None \<Rightarrow> None | Some s' \<Rightarrow> for_loop (Suc i) n body s')
      else Some s)"
  by pat_completeness auto
termination
  by (relation "measure (\<lambda>(i, n, body, s). n - i)") auto

declare for_loop.simps [simp del]

section \<open>Presolve outcome (presolve/PresolveComponent.cpp)\<close>

text \<open>
  The enumerations are declared in headers that are not part of the sources at hand.
  \<open>HighsModelStatus\<close> carries the three enumerators the switch names and one
  constructor standing for every other enumerator; \<open>HighsPresolveStatus\<close> carries
  the seven outcomes listed in section 7 of the specification.
\<close>

datatype HighsModelStatus =
  PRIMAL_INFEASIBLE | DUAL_INFEASIBLE | OPTIMAL | OTHER_MODEL_STATUS nat

datatype HighsPresolveStatus =
  NotReduced | Reduced | ReducedToEmpty | Infeasible | Unbounded | NullError | Error

text \<open>
  \<^verbatim>\<open>PresolveComponent::run\<close>.  \<open>hpresolve_run\<close> stands for
  \<^verbatim>\<open>presolve::HPresolve::run\<close> (not in the sources) applied to the component's data.
\<close>

definition PresolveComponent_run ::
  "('d \<Rightarrow> HighsModelStatus) \<Rightarrow> 'd \<Rightarrow> HighsPresolveStatus" where
  "PresolveComponent_run hpresolve_run data =
     (case hpresolve_run data of
        PRIMAL_INFEASIBLE \<Rightarrow> Infeasible
      | DUAL_INFEASIBLE \<Rightarrow> Unbounded
      | OPTIMAL \<Rightarrow> ReducedToEmpty
      | OTHER_MODEL_STATUS k \<Rightarrow> Reduced)"

section \<open>The QP solver's packed vector (external/qpsolver/vector.hpp)\<close>

record Vector =
  num_nz :: nat
  dim :: nat
  index :: "nat list"
  "value" :: "real list"

text \<open>\<^verbatim>\<open>Vector(unsigned int d)\<close>: both arrays get size \<open>d\<close>, the values are zero.\<close>

definition Vector_new :: "nat \<Rightarrow> Vector" where
  "Vector_new d = \<lparr>num_nz = 0, dim = d, index = replicate d 0, value = replicate d 0\<rparr>"

text \<open>\<^verbatim>\<open>double dot(const Vector& other) const\<close>, also \<^verbatim>\<open>operator*(const Vector&)\<close>.\<close>

definition dot_body :: "Vector \<Rightarrow> Vector \<Rightarrow> nat \<Rightarrow> real \<Rightarrow> real option" where
  "dot_body v other i acc =
     (case rd (index v) i of None \<Rightarrow> None
      | Some j \<Rightarrow>
         (case rd (value v) j of None \<Rightarrow> None
          | Some a \<Rightarrow>
             (case rd (value other) j of None \<Rightarrow> None
              | Some b \<Rightarrow> Some (acc + a * b))))"

definition dot :: "Vector \<Rightarrow> Vector \<Rightarrow> real option" where
  "dot v other = for_loop 0 (num_nz v) (dot_body v other) 0"

text \<open>
  \<^verbatim>\<open>void reset()\<close>: zeroes the value at every listed position, clears the list entry,
  then sets the count to zero.
\<close>

definition reset_body :: "nat \<Rightarrow> Vector \<Rightarrow> Vector option" where
  "reset_body i v = do {
     j \<leftarrow> rd (index v) i;
     vals \<leftarrow> wr (value v) j 0;
     idx \<leftarrow> wr (index v) i 0;
     Some (v\<lparr>index := idx, value := vals\<rparr>) }"

definition reset :: "Vector \<Rightarrow> Vector option" where
  "reset v = do {
     v' \<leftarrow> for_loop 0 (num_nz v) reset_body v;
     Some (v'\<lparr>num_nz := 0\<rparr>) }"

text \<open>\<^verbatim>\<open>Vector& repopulate(const Vector& other)\<close>.\<close>

definition repopulate_body :: "Vector \<Rightarrow> nat \<Rightarrow> Vector \<Rightarrow> Vector option" where
  "repopulate_body other i v = do {
     j \<leftarrow> rd (index other) i;
     idx \<leftarrow> wr (index v) i j;
     x \<leftarrow> rd (value other) j;
     vals \<leftarrow> wr (value v) j x;
     Some (v\<lparr>index := idx, value := vals\<rparr>) }"

definition repopulate :: "Vector \<Rightarrow> Vector \<Rightarrow> Vector option" where
  "repopulate v other = do {
     v1 \<leftarrow> reset v;
     v2 \<leftarrow> for_loop 0 (num_nz other) (repopulate_body other) v1;
     Some (v2\<lparr>num_nz := num_nz other\<rparr>) }"

text \<open>
  \<^verbatim>\<open>static Vector& unit(unsigned int dim, unsigned int u, Vector& target)\<close>; the
  parameter \<open>dim\<close> is not used by the source.
\<close>

definition unit_into :: "nat \<Rightarrow> nat \<Rightarrow> Vector \<Rightarrow> Vector option" where
  "unit_into d u target = do {
     t \<leftarrow> reset target;
     idx \<leftarrow> wr (index t) 0 u;
     vals \<leftarrow> wr (value t) u 1;
     Some (t\<lparr>index := idx, value := vals, num_nz := 1\<rparr>) }"

text \<open>\<^verbatim>\<open>static Vector unit(unsigned int dim, unsigned int u)\<close>.\<close>

definition unit :: "nat \<Rightarrow> nat \<Rightarrow> Vector option" where
  "unit d u = do {
     idx \<leftarrow> wr (index (Vector_new d)) 0 u;
     vals \<leftarrow> wr (value (Vector_new d)) u 1;
     Some ((Vector_new d)\<lparr>index := idx, value := vals, num_nz := 1\<rparr>) }"

text \<open>
  \<^verbatim>\<open>void sanitize(double threshold)\<close>.  The loop state is the vector and the local
  \<open>new_idx\<close>.
\<close>

definition sanitize_body :: "real \<Rightarrow> nat \<Rightarrow> Vector \<times> nat \<Rightarrow> (Vector \<times> nat) option" where
  "sanitize_body threshold i st = (case st of (v, new_idx) \<Rightarrow> do {
     j \<leftarrow> rd (index v) i;
     x \<leftarrow> rd (value v) j;
     if \<bar>x\<bar> > threshold then do {
       idx \<leftarrow> wr (index v) new_idx j;
       Some (v\<lparr>index := idx\<rparr>, Suc new_idx) }
     else do {
       vals \<leftarrow> wr (value v) j 0;
       idx \<leftarrow> wr (index v) i 0;
       Some (v\<lparr>index := idx, value := vals\<rparr>, new_idx) } })"

definition sanitize :: "real \<Rightarrow> Vector \<Rightarrow> Vector option" where
  "sanitize threshold v = do {
     st \<leftarrow> for_loop 0 (num_nz v) (sanitize_body threshold) (v, 0);
     Some ((fst st)\<lparr>num_nz := snd st\<rparr>) }"

text \<open>\<^verbatim>\<open>void resparsify()\<close>.\<close>

definition resparsify_body :: "nat \<Rightarrow> Vector \<Rightarrow> Vector option" where
  "resparsify_body i v = do {
     x \<leftarrow> rd (value v) i;
     if x \<noteq> 0 then do {
       idx \<leftarrow> wr (index v) (num_nz v) i;
       Some (v\<lparr>num_nz := Suc (num_nz v), index := idx\<rparr>) }
     else Some v }"

definition resparsify :: "Vector \<Rightarrow> Vector option" where
  "resparsify v = for_loop 0 (dim v) resparsify_body (v\<lparr>num_nz := 0\<rparr>)"

text \<open>\<^verbatim>\<open>Vector& scale(double a)\<close>.\<close>

definition scale_body :: "real \<Rightarrow> nat \<Rightarrow> Vector \<Rightarrow> Vector option" where
  "scale_body a i v = do {
     j \<leftarrow> rd (index v) i;
     x \<leftarrow> rd (value v) j;
     vals \<leftarrow> wr (value v) j (x * a);
     Some (v\<lparr>value := vals\<rparr>) }"

definition scale :: "real \<Rightarrow> Vector \<Rightarrow> Vector option" where
  "scale a v = for_loop 0 (num_nz v) (scale_body a) v"

text \<open>
  \<^verbatim>\<open>Vector& saxpy(double a, const Vector& x)\<close>; \<open>x\<close> is an object of its own (the
  model does not cover a call that passes the vector to itself).
\<close>

definition saxpy_body :: "real \<Rightarrow> Vector \<Rightarrow> nat \<Rightarrow> Vector \<Rightarrow> Vector option" where
  "saxpy_body a x i v = do {
     j \<leftarrow> rd (index x) i;
     y \<leftarrow> rd (value v) j;
     v1 \<leftarrow> (if y = 0 then do {
              idx \<leftarrow> wr (index v) (num_nz v) j;
              Some (v\<lparr>num_nz := Suc (num_nz v), index := idx\<rparr>) }
            else Some v);
     xj \<leftarrow> rd (value x) j;
     vals \<leftarrow> wr (value v1) j (y + a * xj);
     Some (v1\<lparr>value := vals\<rparr>) }"

definition saxpy :: "real \<Rightarrow> Vector \<Rightarrow> Vector \<Rightarrow> Vector option" where
  "saxpy a x v = do {
     v1 \<leftarrow> sanitize 0 v;
     v2 \<leftarrow> for_loop 0 (num_nz x) (saxpy_body a x) v1;
     resparsify v2 }"

text \<open>\<^verbatim>\<open>Vector& saxpy(double a, double b, const Vector& x)\<close>.\<close>

definition saxpy3 :: "real \<Rightarrow> real \<Rightarrow> Vector \<Rightarrow> Vector \<Rightarrow> Vector option" where
  "saxpy3 a b x v = do {
     v1 \<leftarrow> scale a v;
     saxpy b x v1 }"

text \<open>
  \<^verbatim>\<open>Vector operator +(const Vector& other) const\<close> and \<^verbatim>\<open>operator -\<close>: one loop
  over the dense positions, parametrised here by the arithmetic operation.
\<close>

definition dense_body ::
  "(real \<Rightarrow> real \<Rightarrow> real) \<Rightarrow> Vector \<Rightarrow> Vector \<Rightarrow> nat \<Rightarrow> Vector \<Rightarrow> Vector option" where
  "dense_body f v other i result = do {
     a \<leftarrow> rd (value v) i;
     b \<leftarrow> rd (value other) i;
     vals \<leftarrow> wr (value result) i (f a b);
     if f a b \<noteq> 0 then do {
       idx \<leftarrow> wr (index result) (num_nz result) i;
       Some (result\<lparr>num_nz := Suc (num_nz result), index := idx, value := vals\<rparr>) }
     else Some (result\<lparr>value := vals\<rparr>) }"

definition plus_vec :: "Vector \<Rightarrow> Vector \<Rightarrow> Vector option" where
  "plus_vec v other = for_loop 0 (dim v) (dense_body (+) v other) (Vector_new (dim v))"

definition minus_vec :: "Vector \<Rightarrow> Vector \<Rightarrow> Vector option" where
  "minus_vec v other = for_loop 0 (dim v) (dense_body (-) v other) (Vector_new (dim v))"

text \<open>
  Unary \<^verbatim>\<open>operator -\<close> and \<^verbatim>\<open>operator *(const double d)\<close>: one loop over the listed
  positions, parametrised by the operation on the value.
\<close>

definition map_body :: "(real \<Rightarrow> real) \<Rightarrow> Vector \<Rightarrow> nat \<Rightarrow> Vector \<Rightarrow> Vector option" where
  "map_body f v i result = do {
     j \<leftarrow> rd (index v) i;
     idx \<leftarrow> wr (index result) i j;
     x \<leftarrow> rd (value v) j;
     vals \<leftarrow> wr (value result) j (f x);
     Some (result\<lparr>index := idx, value := vals\<rparr>) }"

definition uminus_vec :: "Vector \<Rightarrow> Vector option" where
  "uminus_vec v = do {
     r \<leftarrow> for_loop 0 (num_nz v) (map_body uminus v) (Vector_new (dim v));
     Some (r\<lparr>num_nz := num_nz v\<rparr>) }"

definition times_scalar :: "Vector \<Rightarrow> real \<Rightarrow> Vector option" where
  "times_scalar v d = do {
     r \<leftarrow> for_loop 0 (num_nz v) (map_body ((*) d) v) (Vector_new (dim v));
     Some (r\<lparr>num_nz := num_nz v\<rparr>) }"

text \<open>\<^verbatim>\<open>Vector& operator +=(const Vector& other)\<close>.\<close>

definition plus_assign_body :: "Vector \<Rightarrow> nat \<Rightarrow> Vector \<Rightarrow> Vector option" where
  "plus_assign_body other i v = do {
     j \<leftarrow> rd (index other) i;
     y \<leftarrow> rd (value v) j;
     xj \<leftarrow> rd (value other) j;
     vals \<leftarrow> wr (value v) j (y + xj);
     Some (v\<lparr>value := vals\<rparr>) }"

definition plus_assign :: "Vector \<Rightarrow> Vector \<Rightarrow> Vector option" where
  "plus_assign v other = do {
     v1 \<leftarrow> for_loop 0 (num_nz other) (plus_assign_body other) v;
     resparsify v1 }"

text \<open>\<^verbatim>\<open>Vector& operator *=(const double d)\<close>.\<close>

definition times_assign :: "Vector \<Rightarrow> real \<Rightarrow> Vector option" where
  "times_assign v d = for_loop 0 (num_nz v) (scale_body d) v"

text \<open>
  The packed-sparse invariant of the specification: every position holding a nonzero
  value is listed among the first \<open>num_nz\<close> index entries.
\<close>

definition listed :: "Vector \<Rightarrow> nat set" where
  "listed v = set (take (num_nz v) (index v))"

definition packed :: "Vector \<Rightarrow> bool" where
  "packed v = (\<forall>i < length (value v). value v ! i \<noteq> 0 \<longrightarrow> i \<in> listed v)"

text \<open>
  The shape every \<open>Vector\<close> built by the constructor and changed only by its methods
  has: both arrays have size \<open>dim\<close>, the count is at most \<open>dim\<close>, and the listed
  positions are positions of the vector, each listed once.
\<close>

definition shaped :: "Vector \<Rightarrow> bool" where
  "shaped v = (length (index v) = dim v \<and> length (value v) = dim v \<and> num_nz v \<le> dim v
     \<and> (\<forall>j \<in> listed v. j < dim v) \<and> distinct (take (num_nz v) (index v)))"

text \<open>Loop invariants of the vector operations, used in the proofs below.\<close>

definition reset_inv :: "Vector \<Rightarrow> nat \<Rightarrow> Vector \<Rightarrow> bool" where
  "reset_inv v k t = (length (index t) = dim v \<and> length (value t) = dim v \<and> dim t = dim v
     \<and> num_nz t = num_nz v
     \<and> (\<forall>i. k \<le> i \<longrightarrow> i < dim v \<longrightarrow> index t ! i = index v ! i)
     \<and> (\<forall>j < dim v. value t ! j = (if j \<in> set (take k (index v)) then 0 else value v ! j)))"

definition sanitize_inv :: "real \<Rightarrow> Vector \<Rightarrow> nat \<Rightarrow> Vector \<times> nat \<Rightarrow> bool" where
  "sanitize_inv eps v k st = (case st of (t, new_idx) \<Rightarrow>
     length (index t) = dim v \<and> length (value t) = dim v \<and> dim t = dim v \<and> new_idx \<le> k
     \<and> take new_idx (index t) = filter (\<lambda>j. eps < \<bar>value v ! j\<bar>) (take k (index v))
     \<and> (\<forall>i. k \<le> i \<longrightarrow> i < dim v \<longrightarrow> index t ! i = index v ! i)
     \<and> (\<forall>j < dim v. value t ! j =
          (if j \<in> set (take k (index v)) \<and> \<bar>value v ! j\<bar> \<le> eps then 0 else value v ! j)))"

definition resparsify_inv :: "Vector \<Rightarrow> nat \<Rightarrow> Vector \<Rightarrow> bool" where
  "resparsify_inv v k t = (length (index t) = dim v \<and> value t = value v \<and> dim t = dim v
     \<and> num_nz t \<le> k
     \<and> take (num_nz t) (index t) = filter (\<lambda>i. value v ! i \<noteq> 0) [0..<k])"

definition repopulate_inv :: "Vector \<Rightarrow> Vector \<Rightarrow> nat \<Rightarrow> Vector \<Rightarrow> bool" where
  "repopulate_inv v other k t = (length (index t) = dim v \<and> length (value t) = dim v
     \<and> dim t = dim v
     \<and> take k (index t) = take k (index other)
     \<and> (\<forall>j < dim v. value t ! j =
          (if j \<in> set (take k (index other)) then value other ! j else 0)))"

definition scale_inv :: "Vector \<Rightarrow> nat \<Rightarrow> Vector \<Rightarrow> bool" where
  "scale_inv v k t = (index t = index v \<and> num_nz t = num_nz v \<and> dim t = dim v
     \<and> length (value t) = dim v
     \<and> (\<forall>j < dim v. value v ! j = 0 \<longrightarrow> value t ! j = 0))"

definition saxpy_inv :: "Vector \<Rightarrow> Vector \<Rightarrow> nat \<Rightarrow> Vector \<Rightarrow> bool" where
  "saxpy_inv v x k t = (shaped t \<and> dim t = dim v
     \<and> (\<forall>i \<in> listed t. value t ! i \<noteq> 0 \<or> i \<in> set (take k (index x))))"

definition dense_inv ::
  "(real \<Rightarrow> real \<Rightarrow> real) \<Rightarrow> Vector \<Rightarrow> Vector \<Rightarrow> nat \<Rightarrow> Vector \<Rightarrow> bool" where
  "dense_inv f v other k r = (length (index r) = dim v \<and> length (value r) = dim v
     \<and> dim r = dim v \<and> num_nz r \<le> k
     \<and> take (num_nz r) (index r)
         = filter (\<lambda>i. f (value v ! i) (value other ! i) \<noteq> 0) [0..<k]
     \<and> (\<forall>i < dim v. value r ! i = (if i < k then f (value v ! i) (value other ! i) else 0)))"

definition map_inv :: "Vector \<Rightarrow> nat \<Rightarrow> Vector \<Rightarrow> bool" where
  "map_inv v k r = (length (index r) = dim v \<and> length (value r) = dim v \<and> dim r = dim v
     \<and> take k (index r) = take k (index v)
     \<and> (\<forall>j < dim v. value r ! j \<noteq> 0 \<longrightarrow> j \<in> set (take k (index v))))"

definition plus_assign_inv :: "Vector \<Rightarrow> nat \<Rightarrow> Vector \<Rightarrow> bool" where
  "plus_assign_inv v k t = (length (index t) = dim v \<and> length (value t) = dim v \<and> dim t = dim v)"

text \<open>Two vectors of dimension two, used to instantiate the theorems.\<close>

definition example_v :: Vector where
  "example_v = \<lparr>num_nz = 1, dim = 2, index = [1, 0], value = [0, 3]\<rparr>"

definition example_x :: Vector where
  "example_x = \<lparr>num_nz = 1, dim = 2, index = [0, 0], value = [2, 0]\<rparr>"

section \<open>The QP instance (external/qpsolver/instance.hpp)\<close>

text \<open>
  \<^verbatim>\<open>Matrix\<close> (matrix.hpp) is not among the sources: its type is the parameter \<open>'m\<close>
  and \<^verbatim>\<open>Matrix::vec_mat\<close> is the parameter \<open>vec_mat\<close> of \<open>objval\<close>.
\<close>

record 'm Instance =
  num_var :: nat
  num_con :: nat
  offset :: real
  c :: Vector
  Q :: 'm
  con_lo :: "real list"
  con_up :: "real list"
  A :: 'm
  var_lo :: "real list"
  var_up :: "real list"

definition objval :: "('m \<Rightarrow> Vector \<Rightarrow> Vector option) \<Rightarrow> 'm Instance \<Rightarrow> Vector \<Rightarrow> real option" where
  "objval vec_mat inst x =
     (case dot (c inst) x of None \<Rightarrow> None
      | Some cx \<Rightarrow>
         (case vec_mat (Q inst) x of None \<Rightarrow> None
          | Some qx \<Rightarrow>
             (case dot qx x of None \<Rightarrow> None
              | Some xqx \<Rightarrow> Some (cx + 0.5 * xqx))))"

section \<open>Doubles with infinities\<close>

text \<open>
  The bounds of an LP are infinite for a free variable or a one-sided row, and the ratio
  test stores \<^verbatim>\<open>kHighsInf\<close> in its step length and adds up ranges that are infinite
  for a variable without two finite bounds.  Such values are modelled by \<open>hfloat\<close>: a
  real number, an infinity or NaN, with the arithmetic and the comparisons of IEEE 754
  except that finite results are exact (no rounding, no overflow, no signed zero).
\<close>

datatype hfloat = Fin real | PInf | MInf | NaN

fun hf_sign :: "hfloat \<Rightarrow> int option" where
  "hf_sign (Fin a) = Some (if a > 0 then 1 else if a < 0 then - 1 else 0)"
| "hf_sign PInf = Some 1"
| "hf_sign MInf = Some (- 1)"
| "hf_sign NaN = None"

definition hf_inf :: "int \<Rightarrow> hfloat" where
  "hf_inf sg = (if sg > 0 then PInf else if sg < 0 then MInf else NaN)"

instantiation hfloat :: "{zero, one, plus, minus, uminus, times, inverse, abs, ord}"
begin

definition zero_hfloat :: hfloat where "zero_hfloat = Fin 0"

definition one_hfloat :: hfloat where "one_hfloat = Fin 1"

fun uminus_hfloat :: "hfloat \<Rightarrow> hfloat" where
  "uminus_hfloat (Fin a) = Fin (- a)"
| "uminus_hfloat PInf = MInf"
| "uminus_hfloat MInf = PInf"
| "uminus_hfloat NaN = NaN"

fun plus_hfloat :: "hfloat \<Rightarrow> hfloat \<Rightarrow> hfloat" where
  "plus_hfloat (Fin a) (Fin b) = Fin (a + b)"
| "plus_hfloat NaN y = NaN"
| "plus_hfloat x NaN = NaN"
| "plus_hfloat PInf MInf = NaN"
| "plus_hfloat MInf PInf = NaN"
| "plus_hfloat PInf y = PInf"
| "plus_hfloat MInf y = MInf"
| "plus_hfloat x PInf = PInf"
| "plus_hfloat x MInf = MInf"

definition minus_hfloat :: "hfloat \<Rightarrow> hfloat \<Rightarrow> hfloat" where
  "minus_hfloat x y = x + (- y)"

fun times_hfloat :: "hfloat \<Rightarrow> hfloat \<Rightarrow> hfloat" where
  "times_hfloat (Fin a) (Fin b) = Fin (a * b)"
| "times_hfloat x y =
     (case (hf_sign x, hf_sign y) of
        (Some sx, Some sy) \<Rightarrow> hf_inf (sx * sy)
      | _ \<Rightarrow> NaN)"

fun divide_hfloat :: "hfloat \<Rightarrow> hfloat \<Rightarrow> hfloat" where
  "divide_hfloat (Fin a) (Fin b) =
     (if b \<noteq> 0 then Fin (a / b) else if a > 0 then PInf else if a < 0 then MInf else NaN)"
| "divide_hfloat NaN y = NaN"
| "divide_hfloat x NaN = NaN"
| "divide_hfloat (Fin a) y = Fin 0"
| "divide_hfloat x (Fin b) = (if b \<ge> 0 then x else - x)"
| "divide_hfloat x y = NaN"

fun inverse_hfloat :: "hfloat \<Rightarrow> hfloat" where
  "inverse_hfloat (Fin b) = (if b \<noteq> 0 then Fin (1 / b) else PInf)"
| "inverse_hfloat PInf = Fin 0"
| "inverse_hfloat MInf = Fin 0"
| "inverse_hfloat NaN = NaN"

fun abs_hfloat :: "hfloat \<Rightarrow> hfloat" where
  "abs_hfloat (Fin a) = Fin \<bar>a\<bar>"
| "abs_hfloat PInf = PInf"
| "abs_hfloat MInf = PInf"
| "abs_hfloat NaN = NaN"

fun less_hfloat :: "hfloat \<Rightarrow> hfloat \<Rightarrow> bool" where
  "less_hfloat (Fin a) (Fin b) = (a < b)"
| "less_hfloat NaN y = False"
| "less_hfloat x NaN = False"
| "less_hfloat x MInf = False"
| "less_hfloat PInf y = False"
| "less_hfloat x y = True"

definition less_eq_hfloat :: "hfloat \<Rightarrow> hfloat \<Rightarrow> bool" where
  "less_eq_hfloat x y = (x < y \<or> (x = y \<and> x \<noteq> NaN))"

instance ..

end

text \<open>The comparison \<^verbatim>\<open>==\<close> (false on NaN) and \<^verbatim>\<open>std::max\<close>, \<^verbatim>\<open>std::min\<close>.\<close>

definition feq :: "hfloat \<Rightarrow> hfloat \<Rightarrow> bool" where
  "feq x y = (x = y \<and> x \<noteq> NaN)"



section \<open>LP utilities (lp_data/HighsLpUtils.cpp)\<close>

text \<open>
  \<^verbatim>\<open>HighsLp\<close> and \<^verbatim>\<open>HighsSparseMatrix\<close> are declared in headers that are not among
  the sources; the records carry the fields the functions below read or write.  A name
  cannot end in an underscore here, so \<^verbatim>\<open>num_col_\<close> is \<open>num_col\<close> and so on, and the
  matrix arrays \<^verbatim>\<open>start_\<close>, \<^verbatim>\<open>index_\<close>, \<^verbatim>\<open>value_\<close> are \<open>m_start\<close>, \<open>m_index\<close>,
  \<open>m_value\<close>.
\<close>

record HighsSparseMatrix =
  m_start :: "int list"
  m_index :: "int list"
  m_value :: "real list"

record HighsLp =
  num_col :: int
  num_row :: int
  col_cost :: "real list"
  col_lower :: "hfloat list"
  col_upper :: "hfloat list"
  row_lower :: "hfloat list"
  row_upper :: "hfloat list"
  a_matrix :: HighsSparseMatrix

text \<open>Checked accesses with a \<^verbatim>\<open>HighsInt\<close> subscript: a negative one is out of range.\<close>

definition rdi :: "'a list \<Rightarrow> int \<Rightarrow> 'a option" where
  "rdi xs i = (if 0 \<le> i then rd xs (nat i) else None)"

definition wri :: "'a list \<Rightarrow> int \<Rightarrow> 'a \<Rightarrow> 'a list option" where
  "wri xs i v = (if 0 \<le> i then wr xs (nat i) v else None)"

text \<open>
  A \<^verbatim>\<open>for\<close> loop whose body may leave the function: the body yields \<open>Inl r\<close> for
  \<^verbatim>\<open>return r\<close> and \<open>Inr s\<close> to go on with state \<open>s\<close>.
\<close>

function for_loop_ret ::
  "nat \<Rightarrow> nat \<Rightarrow> (nat \<Rightarrow> 's \<Rightarrow> ('r + 's) option) \<Rightarrow> 's \<Rightarrow> ('r + 's) option" where
  "for_loop_ret i n body s =
     (if i < n then
        (case body i s of
           None \<Rightarrow> None
         | Some (Inl r) \<Rightarrow> Some (Inl r)
         | Some (Inr s') \<Rightarrow> for_loop_ret (Suc i) n body s')
      else Some (Inr s))"
  by pat_completeness auto
termination
  by (relation "measure (\<lambda>(i, n, body, s). n - i)") auto

declare for_loop_ret.simps [simp del]




text \<open>
  \<^verbatim>\<open>changeLpMatrixCoefficient\<close>.  The search loop ends at the first entry of the column
  whose row index is \<open>row\<close> (\<^verbatim>\<open>break\<close>) and yields \<open>-1\<close> when there is none.
\<close>

function find_element :: "int list \<Rightarrow> int \<Rightarrow> int \<Rightarrow> int \<Rightarrow> int option" where
  "find_element idx row el stop =
     (if el < stop then
        (case rdi idx el of
           None \<Rightarrow> None
         | Some r \<Rightarrow> if r = row then Some el else find_element idx row (el + 1) stop)
      else Some (- 1))"
  by pat_completeness auto
termination
  by (relation "measure (\<lambda>(idx, row, el, stop). nat (stop - el))") auto

text \<open>\<^verbatim>\<open>for (HighsInt i = col + 1; i <= lp.num_col_; i++) lp.a_matrix_.start_[i]++;\<close>\<close>

function bump_starts :: "int \<Rightarrow> int \<Rightarrow> int list \<Rightarrow> int list option" where
  "bump_starts i n st =
     (if i \<le> n then
        (case rdi st i of
           None \<Rightarrow> None
         | Some s \<Rightarrow>
            (case wri st i (s + 1) of
               None \<Rightarrow> None
             | Some st' \<Rightarrow> bump_starts (i + 1) n st'))
      else Some st)"
  by pat_completeness auto
termination
  by (relation "measure (\<lambda>(i, n, st). nat (n + 1 - i))") auto

text \<open>
  \<^verbatim>\<open>for (HighsInt el = new_num_nz - 1; el > changeElement; el--)\<close>, moving the entries
  one place up.
\<close>

function shift_entries ::
  "int \<Rightarrow> int \<Rightarrow> int list \<times> real list \<Rightarrow> (int list \<times> real list) option" where
  "shift_entries el changeElement iv =
     (if el > changeElement then
        (case iv of (idx, vals) \<Rightarrow>
          (case rdi idx (el - 1) of None \<Rightarrow> None
           | Some r \<Rightarrow>
              (case wri idx el r of None \<Rightarrow> None
               | Some idx' \<Rightarrow>
                  (case rdi vals (el - 1) of None \<Rightarrow> None
                   | Some x \<Rightarrow>
                      (case wri vals el x of None \<Rightarrow> None
                       | Some vals' \<Rightarrow> shift_entries (el - 1) changeElement (idx', vals'))))))
      else Some iv)"
  by pat_completeness auto
termination
  by (relation "measure (\<lambda>(el, changeElement, iv). nat (el - changeElement))") auto

text \<open>
  \<^verbatim>\<open>std::vector::resize\<close>: cuts the vector or fills it up with zeros.  A negative size
  converts to a huge unsigned one, which the allocation refuses.
\<close>

definition resize :: "int \<Rightarrow> 'a::zero list \<Rightarrow> 'a list option" where
  "resize n xs =
     (if n < 0 then None else Some (take (nat n) xs @ replicate (nat n - length xs) 0))"

definition changeLpMatrixCoefficient ::
  "HighsLp \<Rightarrow> int \<Rightarrow> int \<Rightarrow> real \<Rightarrow> (HighsStatus \<times> HighsLp) option" where
  "changeLpMatrixCoefficient lp row col new_value =
     (if row < 0 \<or> row > num_row lp then Some (kError, lp)
      else if col < 0 \<or> col > num_col lp then Some (kError, lp)
      else do {
        from_el \<leftarrow> rdi (m_start (a_matrix lp)) col;
        to_el \<leftarrow> rdi (m_start (a_matrix lp)) (col + 1);
        found \<leftarrow> find_element (m_index (a_matrix lp)) row from_el to_el;
        m \<leftarrow> (if found < 0 then do {
                 last \<leftarrow> rdi (m_start (a_matrix lp)) (num_col lp);
                 let new_num_nz = last + 1;
                 idx \<leftarrow> resize new_num_nz (m_index (a_matrix lp));
                 vals \<leftarrow> resize new_num_nz (m_value (a_matrix lp));
                 st \<leftarrow> bump_starts (col + 1) (num_col lp) (m_start (a_matrix lp));
                 iv \<leftarrow> shift_entries (new_num_nz - 1) to_el (idx, vals);
                 Some (to_el, \<lparr>m_start = st, m_index = fst iv, m_value = snd iv\<rparr>) }
               else Some (found, a_matrix lp));
        idx \<leftarrow> wri (m_index (snd m)) (fst m) row;
        vals \<leftarrow> wri (m_value (snd m)) (fst m) new_value;
        Some (kOk, lp\<lparr>a_matrix := (snd m)\<lparr>m_index := idx, m_value := vals\<rparr>\<rparr>) })"

text \<open>Invariants of the loops of \<open>cleanBounds\<close>, used in the proofs below.\<close>




text \<open>A one-column, one-row LP, used to instantiate the theorems.\<close>

definition example_lp :: HighsLp where
  "example_lp = \<lparr>num_col = 1, num_row = 1, col_cost = [0], col_lower = [Fin 0],
     col_upper = [Fin 1], row_lower = [MInf], row_upper = [Fin 1],
     a_matrix = \<lparr>m_start = [0, 1], m_index = [0], m_value = [5]\<rparr>\<rparr>"

section \<open>Pseudocosts (mip/HighsPseudocost.h)\<close>













section \<open>Basis files (lp_data/HighsLpUtils.cpp)\<close>

subsection \<open>Streams\<close>

text \<open>
  The text of a file is a string.  \<open>isspace\<close> and \<open>isdigit\<close> are those of the C locale,
  on the character's code.
\<close>

definition isspace :: "char \<Rightarrow> bool" where
  "isspace ch = (let k = (of_char ch :: nat) in k = 32 \<or> (9 \<le> k \<and> k \<le> 13))"

definition isdigit :: "char \<Rightarrow> bool" where
  "isdigit ch = (let k = (of_char ch :: nat) in 48 \<le> k \<and> k \<le> 57)"

definition digit_char :: "nat \<Rightarrow> char" where
  "digit_char d = char_of (48 + d)"

definition digit_val :: "char \<Rightarrow> nat" where
  "digit_val ch = of_char ch - 48"

text \<open>\<^verbatim>\<open>ostream << n\<close> for a non-negative integer: its decimal digits.\<close>

fun show_nat :: "nat \<Rightarrow> string" where
  "show_nat n = (if n < 10 then [digit_char n] else show_nat (n div 10) @ [digit_char (n mod 10)])"

declare show_nat.simps [simp del]

definition show_int :: "int \<Rightarrow> string" where
  "show_int i = (if i < 0 then CHR ''-'' # show_nat (nat (- i)) else show_nat (nat i))"

definition parse_nat :: "string \<Rightarrow> nat" where
  "parse_nat ds = foldl (\<lambda>a ch. 10 * a + digit_val ch) 0 ds"

text \<open>
  An input stream: the text not yet read and the state flags \<^verbatim>\<open>eofbit\<close> and
  \<^verbatim>\<open>failbit\<close>.
\<close>

record istream =
  buf :: string
  eofbit :: bool
  failbit :: bool

definition good :: "istream \<Rightarrow> bool" where
  "good s = (\<not> eofbit s \<and> \<not> failbit s)"

text \<open>
  The sentry of a formatted input: it fails on a stream that is not good, skips white
  space otherwise, and fails with \<^verbatim>\<open>eofbit\<close> and \<^verbatim>\<open>failbit\<close> when nothing is left.
\<close>

definition sentry :: "istream \<Rightarrow> istream \<times> bool" where
  "sentry s =
     (if \<not> good s then (s\<lparr>failbit := True\<rparr>, False)
      else let b = dropWhile isspace (buf s) in
        if b = [] then (s\<lparr>buf := [], eofbit := True, failbit := True\<rparr>, False)
        else (s\<lparr>buf := b\<rparr>, True))"

text \<open>
  \<^verbatim>\<open>istream >> std::string\<close>: the characters up to the next white space;
  \<^verbatim>\<open>eofbit\<close> when the text ends there.  The strings read are not used by the caller,
  so only the stream is returned.
\<close>

definition extract_string :: "istream \<Rightarrow> istream" where
  "extract_string s =
     (case sentry s of
        (s', False) \<Rightarrow> s'
      | (s', True) \<Rightarrow>
          let r = dropWhile (\<lambda>ch. \<not> isspace ch) (buf s') in s'\<lparr>buf := r, eofbit := (r = [])\<rparr>)"

text \<open>
  \<^verbatim>\<open>HighsInt\<close> is the 32-bit \<^verbatim>\<open>int\<close> of the default build.  A cast of a
  \<^verbatim>\<open>size_t\<close> to it keeps the low 32 bits.
\<close>

definition kHighsIntMax :: int where "kHighsIntMax = 2 ^ 31 - 1"

definition kHighsIntMin :: int where "kHighsIntMin = - (2 ^ 31)"

definition HighsInt_of_size :: "nat \<Rightarrow> int" where
  "HighsInt_of_size n = (int n + 2 ^ 31) mod 2 ^ 32 - 2 ^ 31"

text \<open>
  \<^verbatim>\<open>istream >> HighsInt\<close> into a variable holding \<open>var\<close> (\<open>None\<close>: not initialised).
  When the sentry fails the variable is not touched; when no digit follows, the variable
  becomes \<open>0\<close> and \<^verbatim>\<open>failbit\<close> is set; when the number does not fit, the variable
  becomes the largest or the smallest \<^verbatim>\<open>HighsInt\<close> and \<^verbatim>\<open>failbit\<close> is set.
\<close>

definition extract_int :: "int option \<Rightarrow> istream \<Rightarrow> int option \<times> istream" where
  "extract_int var s =
     (case sentry s of
        (s', False) \<Rightarrow> (var, s')
      | (s', True) \<Rightarrow>
          let b = buf s';
              neg = (hd b = CHR ''-'');
              body = (if hd b = CHR ''-'' \<or> hd b = CHR ''+'' then tl b else b);
              ds = takeWhile isdigit body;
              r = dropWhile isdigit body;
              v = (if neg then - int (parse_nat ds) else int (parse_nat ds))
          in if ds = [] then (Some 0, s'\<lparr>buf := r, eofbit := (r = []), failbit := True\<rparr>)
             else if v > kHighsIntMax
             then (Some kHighsIntMax, s'\<lparr>buf := r, eofbit := (r = []), failbit := True\<rparr>)
             else if v < kHighsIntMin
             then (Some kHighsIntMin, s'\<lparr>buf := r, eofbit := (r = []), failbit := True\<rparr>)
             else (Some v, s'\<lparr>buf := r, eofbit := (r = [])\<rparr>))"

subsection \<open>The basis and the file system\<close>

text \<open>
  \<^verbatim>\<open>HighsBasisStatus\<close> is declared in a header that is not among the sources, as an
  \<^verbatim>\<open>enum class\<close> over \<^verbatim>\<open>uint8_t\<close> with the enumerators \<^verbatim>\<open>kLower = 0\<close>,
  \<^verbatim>\<open>kBasic\<close>, \<^verbatim>\<open>kUpper\<close>, \<^verbatim>\<open>kZero\<close>, \<^verbatim>\<open>kNonbasic\<close>.  A status is represented by
  its byte: \<^verbatim>\<open>(HighsInt)status\<close> is \<open>uint\<close> and \<^verbatim>\<open>(HighsBasisStatus)int_status\<close> is
  \<open>word_of_int\<close>.
\<close>

type_synonym HighsBasisStatus = "8 word"

definition kLower :: HighsBasisStatus where "kLower = 0"
definition kBasic :: HighsBasisStatus where "kBasic = 1"
definition kUpper :: HighsBasisStatus where "kUpper = 2"
definition kZero :: HighsBasisStatus where "kZero = 3"
definition kNonbasic :: HighsBasisStatus where "kNonbasic = 4"

record HighsBasis =
  valid :: bool
  col_status :: "HighsBasisStatus list"
  row_status :: "HighsBasisStatus list"

text \<open>
  The file system as the two functions see it: the text of every file that can be opened
  for reading, the names that can be opened for writing, and for a name and a text
  written to it what a reader finds under that name afterwards (\<open>None\<close>: it cannot be
  opened for reading).  An ordinary file on a medium with room keeps the text; a device
  such as \<^verbatim>\<open>/dev/null\<close> keeps nothing, a full disk a part of it.
\<close>

record filesystem =
  readable :: "string \<rightharpoonup> string"
  writable :: "string \<Rightarrow> bool"
  stored :: "string \<Rightarrow> string \<Rightarrow> string option"

subsection \<open>writeBasisFile and readBasisFile\<close>

text \<open>
  \<^verbatim>\<open>writeBasisFile\<close>.  \<open>version_major\<close> is the macro \<^verbatim>\<open>HIGHS_VERSION_MAJOR\<close>, which
  the build defines; \<^verbatim>\<open>std::endl\<close> writes a line feed.  The function tests the stream
  once, after opening it, and returns \<open>kOk\<close> whatever becomes of the text it writes.
\<close>

definition basis_text :: "int \<Rightarrow> HighsBasis \<Rightarrow> string" where
  "basis_text version_major basis =
     ''HiGHS Version '' @ show_int version_major @ [CHR 0x0A]
     @ show_nat (length (col_status basis)) @ '' '' @ show_nat (length (row_status basis))
     @ [CHR 0x0A]
     @ concat (map (\<lambda>status. show_int (uint status) @ '' '') (col_status basis)) @ [CHR 0x0A]
     @ concat (map (\<lambda>status. show_int (uint status) @ '' '') (row_status basis)) @ [CHR 0x0A]
     @ [CHR 0x0A]"

definition writeBasisFile ::
  "int \<Rightarrow> filesystem \<Rightarrow> HighsBasis \<Rightarrow> string \<Rightarrow> HighsStatus \<times> filesystem" where
  "writeBasisFile version_major fs basis filename =
     (if valid basis = False then (kError, fs)
      else if \<not> writable fs filename then (kError, fs)
      else (kOk, fs\<lparr>readable := (readable fs)
                     (filename := stored fs filename (basis_text version_major basis))\<rparr>))"

text \<open>
  The two reading loops of \<^verbatim>\<open>readBasisFile\<close>: each reads an integer into
  \<^verbatim>\<open>int_status\<close> and stores its cast in the basis.  The loop state is the stream, the
  variable \<^verbatim>\<open>int_status\<close> and the status array; using a variable that was never set
  is undefined behaviour.
\<close>

definition read_status ::
  "nat \<Rightarrow> istream \<times> int option \<times> HighsBasisStatus list
     \<Rightarrow> (istream \<times> int option \<times> HighsBasisStatus list) option" where
  "read_status i st = (case st of (inFile, int_status, status) \<Rightarrow>
     (case extract_int int_status inFile of (v, inFile') \<Rightarrow>
        (case v of
           None \<Rightarrow> None
         | Some k \<Rightarrow>
            (case wr status i (word_of_int k) of
               None \<Rightarrow> None
             | Some status' \<Rightarrow> Some (inFile', Some k, status')))))"

definition readBasisFile ::
  "filesystem \<Rightarrow> HighsBasis \<Rightarrow> string \<Rightarrow> (HighsStatus \<times> HighsBasis) option" where
  "readBasisFile fs basis filename =
     (case readable fs filename of
        None \<Rightarrow> Some (kError, basis)
      | Some text \<Rightarrow>
          let inFile = \<lparr>buf = text, eofbit = False, failbit = False\<rparr>;
              inFile = extract_string inFile;
              inFile = extract_string inFile
          in (case extract_int None inFile of
                (None, inFile) \<Rightarrow> None
              | (Some highs_version_number, inFile) \<Rightarrow>
                  if highs_version_number = 1 then
                    (case extract_int None inFile of
                       (None, inFile) \<Rightarrow> None
                     | (Some numCol, inFile) \<Rightarrow>
                        (case extract_int None inFile of
                           (None, inFile) \<Rightarrow> None
                         | (Some numRow, inFile) \<Rightarrow>
                             if numCol \<noteq> HighsInt_of_size (length (col_status basis))
                             then Some (kError, basis)
                             else if numRow \<noteq> HighsInt_of_size (length (row_status basis))
                             then Some (kError, basis)
                             else
                               (case for_loop 0 (nat numCol) read_status
                                       (inFile, None, col_status basis) of
                                  None \<Rightarrow> None
                                | Some (inFile, int_status, cols) \<Rightarrow>
                                   (case for_loop 0 (nat numRow) read_status
                                           (inFile, int_status, row_status basis) of
                                      None \<Rightarrow> None
                                    | Some (inFile, int_status, rows) \<Rightarrow>
                                        if eofbit inFile
                                        then Some (kError, basis\<lparr>col_status := cols, row_status := rows\<rparr>)
                                        else Some (kOk, basis\<lparr>col_status := cols, row_status := rows\<rparr>)))))
                  else Some (kError, basis)))"

text \<open>
  A basis with two columns and one row, and a file system with an ordinary file
  \<^verbatim>\<open>basis.bas\<close> and the device \<^verbatim>\<open>/dev/null\<close>; no other name can be opened.
\<close>

definition example_basis :: HighsBasis where
  "example_basis = \<lparr>valid = True, col_status = [kBasic, kLower], row_status = [kUpper]\<rparr>"

definition example_fs :: filesystem where
  "example_fs = \<lparr>readable = [''/dev/null'' \<mapsto> []],
     writable = (\<lambda>name. name = ''basis.bas'' \<or> name = ''/dev/null''),
     stored = (\<lambda>name text. if name = ''basis.bas'' then Some text
                             else if name = ''/dev/null'' then Some [] else None)\<rparr>"

text \<open>The text of a status line and the invariant of the reading loops, used in the proofs below.\<close>

definition status_items :: "HighsBasisStatus list \<Rightarrow> string" where
  "status_items ss = concat (map (\<lambda>status. show_int (uint status) @ '' '') ss)"

definition read_inv ::
  "HighsBasisStatus list \<Rightarrow> string \<Rightarrow> nat
     \<Rightarrow> istream \<times> int option \<times> HighsBasisStatus list \<Rightarrow> bool" where
  "read_inv ss tail k st = (case st of (s, v, status) \<Rightarrow>
     good s \<and> (\<exists>ws. (\<forall>x \<in> set ws. isspace x) \<and> buf s = ws @ status_items (drop k ss) @ tail)
     \<and> length status = length ss \<and> take k status = take k ss)"

section \<open>The dual ratio test (simplex/HEkkDualRow.cpp)\<close>

subsection \<open>The state of \<^verbatim>\<open>HEkkDualRow\<close>\<close>

text \<open>
  The record holds the fields of \<^verbatim>\<open>HEkkDualRow\<close> the functions below use, the arrays
  of the simplex instance its pointers refer to (\<open>workMove\<close>, \<open>workDual\<close>, \<open>workRange\<close>,
  \<open>workNumTotPermutation\<close>), the two values read from the instance
  (\<^verbatim>\<open>info_.update_count\<close>, \<^verbatim>\<open>options_->dual_feasibility_tolerance\<close>) and the counters
  of the analysis object.  Row entries, dual values, the primal step \<open>workDelta\<close> and the
  tolerance are finite and modelled by reals; ranges, step lengths and the second
  component of \<open>workData\<close> are \<open>hfloat\<close>.  A count is a natural number; a column index
  is a \<^verbatim>\<open>HighsInt\<close>.
\<close>

record HEkkDualRow =
  workMove :: "int list"
  workDual :: "real list"
  workRange :: "hfloat list"
  workNumTotPermutation :: "int list"
  update_count :: int
  dual_feasibility_tolerance :: real
  workDelta :: real
  workTheta :: hfloat
  workAlpha :: hfloat
  workPivot :: int
  workCount :: nat
  workData :: "(int \<times> hfloat) list"
  workGroup :: "nat list"
  packCount :: nat
  packIndex :: "int list"
  packValue :: "real list"
  alt_workCount :: nat
  original_workData :: "(int \<times> hfloat) list"
  sorted_workData :: "(int \<times> hfloat) list"
  alt_workGroup :: "nat list"
  num_quad_chuzc :: nat
  num_heap_chuzc :: nat
  sum_heap_chuzc_size :: nat
  max_heap_chuzc_size :: nat

text \<open>
  The constants \<^verbatim>\<open>kInitialTotalChange\<close>, \<^verbatim>\<open>kInitialRemainTheta\<close> and
  \<^verbatim>\<open>kMaxSelectTheta\<close> are declared in HEkkDualRow.h, which is not among the sources;
  they are parameters of the functions that use them.
\<close>

record chuzc_constants =
  kInitialTotalChange :: hfloat
  kInitialRemainTheta :: hfloat
  kMaxSelectTheta :: hfloat

text \<open>
  How a run of the model can stop short of a result: a loop without a bound ran out of
  fuel, or the source has undefined behaviour (an access outside a vector, a read of a
  variable that was never set).
\<close>

datatype stop = OutOfFuel | Undefined

subsection \<open>\<^verbatim>\<open>HEkkDualRow::choosePossible\<close>\<close>

definition choosePossible_body ::
  "hfloat \<Rightarrow> real \<Rightarrow> int \<Rightarrow> nat \<Rightarrow> HEkkDualRow \<Rightarrow> HEkkDualRow option" where
  "choosePossible_body Ta Td move_out i s = do {
     iCol \<leftarrow> rd (packIndex s) i;
     move \<leftarrow> rdi (workMove s) iCol;
     pv \<leftarrow> rd (packValue s) i;
     let alpha = Fin (pv * of_int move_out * of_int move);
     if alpha > Ta then do {
       wd \<leftarrow> wr (workData s) (workCount s) (iCol, alpha);
       dual \<leftarrow> rdi (workDual s) iCol;
       let relax = Fin (dual * of_int move + Td);
       let s1 = s\<lparr>workData := wd, workCount := Suc (workCount s)\<rparr>;
       Some (if workTheta s1 * alpha > relax then s1\<lparr>workTheta := relax / alpha\<rparr> else s1) }
     else Some s }"

definition choosePossible :: "HEkkDualRow \<Rightarrow> HEkkDualRow option" where
  "choosePossible s =
     (let Ta = (if update_count s < 10 then Fin (1 / 10 ^ 9)
                else if update_count s < 20 then Fin (3 / 10 ^ 8) else Fin (1 / 10 ^ 6));
          Td = dual_feasibility_tolerance s;
          move_out = (if workDelta s < 0 then - 1 else 1)
      in for_loop 0 (packCount s) (choosePossible_body Ta Td move_out)
           (s\<lparr>workTheta := PInf, workCount := 0\<rparr>))"

subsection \<open>\<^verbatim>\<open>HEkkDualRow::chooseFinal\<close> and its helpers\<close>

text \<open>
  \<^verbatim>\<open>swap(workData[workCount++], workData[i])\<close>, used by both reductions.
\<close>

definition swap_in :: "nat \<Rightarrow> HEkkDualRow \<Rightarrow> HEkkDualRow option" where
  "swap_in i s = do {
     a \<leftarrow> rd (workData s) (workCount s);
     b \<leftarrow> rd (workData s) i;
     wd \<leftarrow> wr (workData s) (workCount s) b;
     wd \<leftarrow> wr wd i a;
     Some (s\<lparr>workData := wd, workCount := Suc (workCount s)\<rparr>) }"

text \<open>
  Step 1, the large-step reduction.  The inner \<^verbatim>\<open>for\<close> loop works on the state and
  \<open>totalChange\<close>; the outer \<^verbatim>\<open>for (;;)\<close> has no bound in the source and runs on fuel
  here.
\<close>

definition reduce_body ::
  "hfloat \<Rightarrow> nat \<Rightarrow> HEkkDualRow \<times> hfloat \<Rightarrow> (HEkkDualRow \<times> hfloat) option" where
  "reduce_body selectTheta i st = (case st of (s, totalChange) \<Rightarrow> do {
     entry \<leftarrow> rd (workData s) i;
     let iCol = fst entry;
     let alpha = snd entry;
     move \<leftarrow> rdi (workMove s) iCol;
     dual \<leftarrow> rdi (workDual s) iCol;
     let tight = Fin (of_int move * dual);
     if alpha * selectTheta \<ge> tight then do {
       s' \<leftarrow> swap_in i s;
       range \<leftarrow> rdi (workRange s) iCol;
       Some (s', totalChange + range * alpha) }
     else Some st })"

fun reduce_loop ::
  "nat \<Rightarrow> nat \<Rightarrow> hfloat \<Rightarrow> hfloat \<Rightarrow> HEkkDualRow \<times> hfloat \<Rightarrow> stop + HEkkDualRow" where
  "reduce_loop 0 fullCount totalDelta selectTheta st = Inl OutOfFuel"
| "reduce_loop (Suc fuel) fullCount totalDelta selectTheta st =
     (case for_loop (workCount (fst st)) fullCount (reduce_body selectTheta) st of
        None \<Rightarrow> Inl Undefined
      | Some (s, totalChange) \<Rightarrow>
          if totalChange \<ge> totalDelta \<or> workCount s = fullCount then Inr s
          else reduce_loop fuel fullCount totalDelta (selectTheta * Fin 10) (s, totalChange))"

text \<open>
  \<^verbatim>\<open>chooseFinalWorkGroupQuad\<close>.  The inner loop works on the state, \<open>totalChange\<close> and
  \<open>remainTheta\<close>; the \<^verbatim>\<open>while\<close> loop carries \<open>totalChange\<close>, \<open>selectTheta\<close> and the
  three \<open>prev_\<close> values and runs on fuel.  The result is the returned flag and the state.
\<close>

definition quad_body ::
  "real \<Rightarrow> hfloat \<Rightarrow> nat \<Rightarrow> HEkkDualRow \<times> hfloat \<times> hfloat
     \<Rightarrow> (HEkkDualRow \<times> hfloat \<times> hfloat) option" where
  "quad_body Td selectTheta i st = (case st of (s, totalChange, remainTheta) \<Rightarrow> do {
     entry \<leftarrow> rd (workData s) i;
     let iCol = fst entry;
     let val = snd entry;
     move \<leftarrow> rdi (workMove s) iCol;
     d \<leftarrow> rdi (workDual s) iCol;
     let dual = Fin (of_int move * d);
     if dual \<le> selectTheta * val then do {
       s' \<leftarrow> swap_in i s;
       range \<leftarrow> rdi (workRange s) iCol;
       Some (s', totalChange + val * range, remainTheta) }
     else if dual + Fin Td < remainTheta * val then
       Some (s, totalChange, (dual + Fin Td) / val)
     else Some st })"

fun quad_loop ::
  "nat \<Rightarrow> chuzc_constants \<Rightarrow> nat \<Rightarrow> hfloat
     \<Rightarrow> HEkkDualRow \<times> hfloat \<times> hfloat \<times> nat \<times> hfloat \<times> hfloat
     \<Rightarrow> stop + bool \<times> HEkkDualRow" where
  "quad_loop 0 K fullCount totalDelta st = Inl OutOfFuel"
| "quad_loop (Suc fuel) K fullCount totalDelta st =
     (case st of (s, totalChange, selectTheta, prev_workCount, prev_remainTheta, prev_selectTheta) \<Rightarrow>
        if selectTheta < kMaxSelectTheta K then
          (case for_loop (workCount s) fullCount
                  (quad_body (dual_feasibility_tolerance s) selectTheta)
                  (s, totalChange, kInitialRemainTheta K) of
             None \<Rightarrow> Inl Undefined
           | Some (s1, totalChange, remainTheta) \<Rightarrow>
               let s2 = s1\<lparr>workGroup := workGroup s1 @ [workCount s1]\<rparr>;
                   selectTheta = remainTheta
               in if workCount s2 = prev_workCount \<and> feq prev_selectTheta selectTheta
                     \<and> feq prev_remainTheta remainTheta
                  then Inr (False, s2)
                  else if totalChange \<ge> totalDelta \<or> workCount s2 = fullCount
                  then (if length (workGroup s2) \<le> 1 then Inr (False, s2) else Inr (True, s2))
                  else quad_loop fuel K fullCount totalDelta
                         (s2, totalChange, selectTheta, workCount s2, remainTheta, selectTheta))
        else (if length (workGroup s) \<le> 1 then Inr (False, s) else Inr (True, s)))"

definition chooseFinalWorkGroupQuad ::
  "nat \<Rightarrow> chuzc_constants \<Rightarrow> HEkkDualRow \<Rightarrow> stop + bool \<times> HEkkDualRow" where
  "chooseFinalWorkGroupQuad fuel K s =
     (let fullCount = workCount s;
          selectTheta = workTheta s;
          totalDelta = \<bar>Fin (workDelta s)\<bar>
      in quad_loop fuel K fullCount totalDelta
           (s\<lparr>workCount := 0, workGroup := [0]\<rparr>, kInitialTotalChange K, selectTheta,
            0, kInitialRemainTheta K, selectTheta))"

text \<open>
  \<^verbatim>\<open>chooseFinalWorkGroupHeap\<close>.  \<^verbatim>\<open>maxheapsort\<close> (util/HighsSort) is not among the
  sources and is a parameter: it takes the value array, the index array and the number of
  entries and returns both arrays.  The second loop leaves by \<^verbatim>\<open>break\<close> with its state.
\<close>

definition heap_build_body ::
  "chuzc_constants \<Rightarrow> HEkkDualRow \<Rightarrow> nat \<Rightarrow> nat \<times> int list \<times> hfloat list
     \<Rightarrow> (nat \<times> int list \<times> hfloat list) option" where
  "heap_build_body K s i st = (case st of (heap_num_en, heap_i, heap_v) \<Rightarrow> do {
     entry \<leftarrow> rd (original_workData s) i;
     let iCol = fst entry;
     let val = snd entry;
     move \<leftarrow> rdi (workMove s) iCol;
     d \<leftarrow> rdi (workDual s) iCol;
     let dual = Fin (of_int move * d);
     let ratio = dual / val;
     if ratio < kMaxSelectTheta K then do {
       hi \<leftarrow> wr heap_i (Suc heap_num_en) (int i);
       hv \<leftarrow> wr heap_v (Suc heap_num_en) ratio;
       Some (Suc heap_num_en, hi, hv) }
     else Some st })"

definition resize_pairs :: "nat \<Rightarrow> (int \<times> hfloat) list \<Rightarrow> (int \<times> hfloat) list" where
  "resize_pairs n xs = take n xs @ replicate (n - length xs) (0, Fin 0)"

definition heap_store ::
  "int \<Rightarrow> hfloat \<Rightarrow> HEkkDualRow \<times> hfloat \<times> hfloat \<times> nat
     \<Rightarrow> (HEkkDualRow \<times> hfloat \<times> hfloat \<times> nat) option" where
  "heap_store iCol val st = (case st of (s, totalChange, selectTheta, first_entry) \<Rightarrow> do {
     sw \<leftarrow> wr (sorted_workData s) (alt_workCount s) (iCol, val);
     range \<leftarrow> rdi (workRange s) iCol;
     Some (s\<lparr>sorted_workData := sw, alt_workCount := Suc (alt_workCount s)\<rparr>,
           totalChange + val * range, selectTheta, first_entry) })"

definition heap_group_body ::
  "int list \<Rightarrow> hfloat \<Rightarrow> nat \<Rightarrow> HEkkDualRow \<times> hfloat \<times> hfloat \<times> nat
     \<Rightarrow> (HEkkDualRow \<times> hfloat \<times> hfloat \<times> nat + HEkkDualRow \<times> hfloat \<times> hfloat \<times> nat) option" where
  "heap_group_body heap_i totalDelta en st =
     (case st of (s, totalChange, selectTheta, this_group_first_entry) \<Rightarrow> do {
        i \<leftarrow> rd heap_i en;
        entry \<leftarrow> rdi (original_workData s) i;
        move \<leftarrow> rdi (workMove s) (fst entry);
        d \<leftarrow> rdi (workDual s) (fst entry);
        let dual = Fin (of_int move * d);
        if dual > selectTheta * snd entry then
          (if totalChange \<ge> totalDelta
           then Some (Inl (s\<lparr>alt_workGroup := alt_workGroup s @ [alt_workCount s]\<rparr>, totalChange,
                           (dual + Fin (dual_feasibility_tolerance s)) / snd entry,
                           alt_workCount s))
           else map_option Inr
                  (heap_store (fst entry) (snd entry)
                     (s\<lparr>alt_workGroup := alt_workGroup s @ [alt_workCount s]\<rparr>, totalChange,
                      (dual + Fin (dual_feasibility_tolerance s)) / snd entry, alt_workCount s)))
        else map_option Inr (heap_store (fst entry) (snd entry) st) })"

definition chooseFinalWorkGroupHeap ::
  "(hfloat list \<Rightarrow> int list \<Rightarrow> nat \<Rightarrow> hfloat list \<times> int list) \<Rightarrow> chuzc_constants
     \<Rightarrow> HEkkDualRow \<Rightarrow> stop + bool \<times> HEkkDualRow" where
  "chooseFinalWorkGroupHeap maxheapsort K s =
     (let fullCount = alt_workCount s;
          totalDelta = \<bar>Fin (workDelta s)\<bar>
      in case for_loop 0 fullCount (heap_build_body K s)
                (0, replicate (Suc fullCount) 0, replicate (Suc fullCount) (Fin 0)) of
           None \<Rightarrow> Inl Undefined
         | Some (heap_num_en, heap_i, heap_v) \<Rightarrow>
             (case maxheapsort heap_v heap_i heap_num_en of (heap_v, heap_i) \<Rightarrow>
                let s1 = s\<lparr>alt_workCount := 0, alt_workGroup := [0]\<rparr> in
                if heap_num_en \<le> 0 then Inr (False, s1)
                else
                  let s2 = s1\<lparr>sorted_workData := resize_pairs heap_num_en (sorted_workData s1)\<rparr> in
                  case for_loop_ret 1 (Suc heap_num_en) (heap_group_body heap_i totalDelta)
                         (s2, kInitialTotalChange K, workTheta s, 0) of
                    None \<Rightarrow> Inl Undefined
                  | Some r \<Rightarrow>
                      (case (case r of Inl st \<Rightarrow> st | Inr st \<Rightarrow> st) of
                         (s3, totalChange, selectTheta, this_group_first_entry) \<Rightarrow>
                           if alt_workCount s3 > this_group_first_entry
                           then Inr (True, s3\<lparr>alt_workGroup := alt_workGroup s3 @ [alt_workCount s3]\<rparr>)
                           else Inr (True, s3))))"







text \<open>
  \<^verbatim>\<open>chooseFinal\<close>.  \<open>pdqsort\<close> (the sort of the flips by column) and
  \<open>debugChooseColumnInfeasibilities\<close> are not among the sources and are parameters.  The
  timer calls and the prints are left out.  The result is the returned code and the
  state.  With assertions compiled in, \<^verbatim>\<open>assert(breakIndex >= 0)\<close> aborts where the
  model reads \<open>workData\<close> at a negative index; neither gives a result.

  The source sets \<^verbatim>\<open>use_quad_sort = true;  // workCount < 100;\<close> and
  \<^verbatim>\<open>use_heap_sort = !use_quad_sort;\<close>, and counts the call as a quadratic or a heap one
  by \<^verbatim>\<open>workCount < 100\<close>.
\<close>

definition use_quad_sort :: "nat \<Rightarrow> bool" where
  "use_quad_sort count = True"

definition use_heap_sort :: "nat \<Rightarrow> bool" where
  "use_heap_sort count = (\<not> use_quad_sort count)"

definition count_chuzc :: "HEkkDualRow \<Rightarrow> HEkkDualRow" where
  "count_chuzc s =
     (if workCount s < 100 then s\<lparr>num_quad_chuzc := Suc (num_quad_chuzc s)\<rparr>
      else s\<lparr>num_heap_chuzc := Suc (num_heap_chuzc s),
             sum_heap_chuzc_size := sum_heap_chuzc_size s + workCount s,
             max_heap_chuzc_size := max (workCount s) (max_heap_chuzc_size s)\<rparr>)"






text \<open>Steps 1 and 2: the reduction and the choice of the sort.\<close>

definition chooseFinal_groups ::
  "nat \<Rightarrow> chuzc_constants \<Rightarrow> (hfloat list \<Rightarrow> int list \<Rightarrow> nat \<Rightarrow> hfloat list \<times> int list)
     \<Rightarrow> HEkkDualRow \<Rightarrow> stop + bool \<times> bool option \<times> HEkkDualRow" where
  "chooseFinal_groups fuel K maxheapsort s =
     (let fullCount = workCount s;
          totalDelta = \<bar>Fin (workDelta s)\<bar>;
          selectTheta = Fin 10 * workTheta s + Fin (1 / 10 ^ 7)
      in case reduce_loop fuel fullCount totalDelta selectTheta (s\<lparr>workCount := 0\<rparr>, Fin 0) of
           Inl e \<Rightarrow> Inl e
         | Inr s \<Rightarrow>
             let quad = use_quad_sort (workCount s);
                 heap = use_heap_sort (workCount s);
                 s = count_chuzc s;
                 s = (if heap then s\<lparr>original_workData := workData s, alt_workCount := workCount s\<rparr>
                      else s)
             in case (if quad
                      then (case chooseFinalWorkGroupQuad fuel K s of
                              Inl e \<Rightarrow> Inl e | Inr (ok, s) \<Rightarrow> Inr (Some ok, s))
                      else Inr (None, s)) of
                  Inl e \<Rightarrow> Inl e
                | Inr (choose_ok, s) \<Rightarrow>
                   (case (if heap
                          then (case chooseFinalWorkGroupHeap maxheapsort K s of
                                  Inl e \<Rightarrow> Inl e | Inr (ok, s) \<Rightarrow> Inr (Some ok, s))
                          else Inr (choose_ok, s)) of
                      Inl e \<Rightarrow> Inl e
                    | Inr (choose_ok, s) \<Rightarrow> Inr (quad, choose_ok, s)))"


text \<open>
  The words of the claim about \<open>choosePossible\<close>: the threshold \<open>T_a\<close> for an update
  count, the value \<open>alpha\<close> and the ratio of the packed entry \<open>i\<close>, and the entries that
  are candidates.
\<close>

definition Ta_of :: "int \<Rightarrow> real" where
  "Ta_of uc = (if uc < 10 then 1 / 10 ^ 9 else if uc < 20 then 3 / 10 ^ 8 else 1 / 10 ^ 6)"

definition cand_alpha :: "HEkkDualRow \<Rightarrow> nat \<Rightarrow> real" where
  "cand_alpha s i =
     packValue s ! i * of_int (if workDelta s < 0 then - 1 else 1)
       * of_int (workMove s ! nat (packIndex s ! i))"

definition cand_ratio :: "HEkkDualRow \<Rightarrow> nat \<Rightarrow> real" where
  "cand_ratio s i =
     (of_int (workMove s ! nat (packIndex s ! i)) * workDual s ! nat (packIndex s ! i)
        + dual_feasibility_tolerance s) / cand_alpha s i"

definition candidates_upto :: "HEkkDualRow \<Rightarrow> nat \<Rightarrow> nat list" where
  "candidates_upto s k = filter (\<lambda>i. cand_alpha s i > Ta_of (update_count s)) [0..<k]"


text \<open>
  The packed row fits its arrays and names columns of the instance, as \<open>setup\<close> and
  \<open>chooseMakepack\<close> leave it.
\<close>

definition pack_ok :: "HEkkDualRow \<Rightarrow> bool" where
  "pack_ok s = (packCount s \<le> length (packIndex s) \<and> packCount s \<le> length (packValue s)
     \<and> packCount s \<le> length (workData s)
     \<and> (\<forall>i < packCount s. 0 \<le> packIndex s ! i
           \<and> nat (packIndex s ! i) < length (workMove s)
           \<and> nat (packIndex s ! i) < length (workDual s)))"

text \<open>The invariant of the loop of \<open>choosePossible\<close>, used in the proof below.\<close>

definition possible_inv :: "HEkkDualRow \<Rightarrow> nat \<Rightarrow> HEkkDualRow \<Rightarrow> bool" where
  "possible_inv s k t =
     ((\<exists>th wc wd. t = s\<lparr>workTheta := th, workCount := wc, workData := wd\<rparr>)
      \<and> length (workData t) = length (workData s)
      \<and> workCount t = length (candidates_upto s k)
      \<and> take (workCount t) (workData t)
          = map (\<lambda>i. (packIndex s ! i, Fin (cand_alpha s i))) (candidates_upto s k)
      \<and> workTheta t = (if candidates_upto s k = [] then PInf
                        else Fin (Min (cand_ratio s ` set (candidates_upto s k)))))"

text \<open>A dual row with three packed entries, and the constants of HiGHS.\<close>

definition example_row :: HEkkDualRow where
  "example_row = \<lparr>workMove = [1, 1, - 1], workDual = [1 / 2, 1 / 5, - 3 / 10],
     workRange = [Fin 1, Fin (1 / 4), PInf], workNumTotPermutation = [2, 0, 1],
     update_count = 0, dual_feasibility_tolerance = 1 / 10 ^ 7, workDelta = 1,
     workTheta = Fin 0, workAlpha = Fin 0, workPivot = - 1, workCount = 0,
     workData = [(0, Fin 0), (0, Fin 0), (0, Fin 0)], workGroup = [],
     packCount = 3, packIndex = [0, 1, 2], packValue = [1, 2, - 1],
     alt_workCount = 0, original_workData = [], sorted_workData = [], alt_workGroup = [],
     num_quad_chuzc = 0, num_heap_chuzc = 0, sum_heap_chuzc_size = 0, max_heap_chuzc_size = 0\<rparr>"

definition example_constants :: chuzc_constants where
  "example_constants = \<lparr>kInitialTotalChange = Fin (1 / 10 ^ 12),
     kInitialRemainTheta = Fin (10 ^ 100), kMaxSelectTheta = Fin (10 ^ 18)\<rparr>"


text \<open>
  The example row after \<open>choosePossible\<close>, once as it is and once with the reduced cost
  of column 0 at \<open>- T_d\<close>, which makes the pivot degenerate; and the row of \<open>n\<close>
  columns at their lower bounds with reduced cost 0 and pivotal row entry 1, after
  \<open>choosePossible\<close> (all \<open>n\<close> columns are candidates).
\<close>

definition example_candidates :: HEkkDualRow where
  "example_candidates = example_row\<lparr>workTheta := Fin (2000001 / 20000000), workCount := 3,
     workData := [(0, Fin 1), (1, Fin 2), (2, Fin 1)]\<rparr>"


definition many_candidates :: "nat \<Rightarrow> HEkkDualRow" where
  "many_candidates n = \<lparr>workMove = replicate n 1, workDual = replicate n 0,
     workRange = replicate n (Fin 1), workNumTotPermutation = map int [0..<n],
     update_count = 0, dual_feasibility_tolerance = 1 / 10 ^ 7, workDelta = 1,
     workTheta = Fin (1 / 10 ^ 7), workAlpha = Fin 0, workPivot = - 1, workCount = n,
     workData = map (\<lambda>i. (int i, Fin 1)) [0..<n], workGroup = [],
     packCount = n, packIndex = map int [0..<n], packValue = replicate n 1,
     alt_workCount = 0, original_workData = [], sorted_workData = [], alt_workGroup = [],
     num_quad_chuzc = 0, num_heap_chuzc = 0, sum_heap_chuzc_size = 0, max_heap_chuzc_size = 0\<rparr>"

text \<open>
  For the proof that a degenerate step applies no flips: the candidates have finite positive
  values \<open>alpha\<close> (\<open>choosePossible\<close> records only entries with \<open>alpha > T_a\<close>); an entry
  is tight for a step length \<open>theta\<close> when \<open>chooseFinalWorkGroupQuad\<close> would take it with
  \<open>selectTheta = theta\<close>; \<open>groups_frame\<close> is what the reductions leave alone; and the two
  invariants of the inner loop of \<open>chooseFinalWorkGroupQuad\<close>.
\<close>

definition positive_alpha :: "int \<times> hfloat \<Rightarrow> bool" where
  "positive_alpha e = (case snd e of Fin v \<Rightarrow> 0 < v | _ \<Rightarrow> False)"

definition candidates_positive :: "nat \<Rightarrow> HEkkDualRow \<Rightarrow> bool" where
  "candidates_positive n s = (\<forall>e \<in> set (take n (workData s)). positive_alpha e)"






section \<open>Theorems\<close>

subsection \<open>Loops\<close>

lemma for_loop_done [simp]: "\<not> i < n \<Longrightarrow> for_loop i n body s = Some s"
  by (simp add: for_loop.simps)

lemma for_loop_step:
  "i < n \<Longrightarrow> for_loop i n body s =
     (case body i s of None \<Rightarrow> None | Some s' \<Rightarrow> for_loop (Suc i) n body s')"
  by (subst for_loop.simps) simp

text \<open>
  The Hoare rule of the loop for total correctness: an invariant that holds at entry and
  that every in-range iteration re-establishes without undefined behaviour holds at exit,
  and the loop returns.
\<close>

lemma for_loop_rule:
  assumes "I i s" and "i \<le> n"
    and "\<And>k t. i \<le> k \<Longrightarrow> k < n \<Longrightarrow> I k t \<Longrightarrow> \<exists>t'. body k t = Some t' \<and> I (Suc k) t'"
  shows "\<exists>t. for_loop i n body s = Some t \<and> I n t"
  using assms
proof (induction "n - i" arbitrary: i s)
  case 0
  then have "i = n" by simp
  with "0.prems"(1) show ?case by simp
next
  case (Suc d)
  then have lt: "i < n" by simp
  from Suc.prems(3) [OF order_refl lt Suc.prems(1)]
  obtain t' where b: "body i s = Some t'" and I': "I (Suc i) t'" by blast
  have "\<exists>t. for_loop (Suc i) n body t' = Some t \<and> I n t"
  proof (rule Suc.hyps(1))
    show "d = n - Suc i" using Suc.hyps(2) by simp
    show "I (Suc i) t'" by (rule I')
    show "Suc i \<le> n" using lt by simp
    show "\<And>k t. Suc i \<le> k \<Longrightarrow> k < n \<Longrightarrow> I k t \<Longrightarrow> \<exists>t'. body k t = Some t' \<and> I (Suc k) t'"
      using Suc.prems(3) by simp
  qed
  then show ?case using lt b by (simp add: for_loop_step)
qed


lemma for_loop_ret_done [simp]: "\<not> i < n \<Longrightarrow> for_loop_ret i n body s = Some (Inr s)"
  by (simp add: for_loop_ret.simps)



subsection \<open>Checked accesses and lists\<close>

lemma rd_Some [simp]: "i < length xs \<Longrightarrow> rd xs i = Some (xs ! i)"
  by (simp add: rd_def)

lemma wr_Some [simp]: "i < length xs \<Longrightarrow> wr xs i v = Some (xs[i := v])"
  by (simp add: wr_def)

lemma take_Suc_set: "k < length xs \<Longrightarrow> set (take (Suc k) xs) = insert (xs ! k) (set (take k xs))"
  by (simp add: take_Suc_conv_app_nth)

lemma take_Suc_update: "n < length xs \<Longrightarrow> take (Suc n) (xs[n := a]) = take n xs @ [a]"
  by (simp add: take_Suc_conv_app_nth)

lemma distinct_bounded_length:
  assumes "distinct xs" "\<forall>j \<in> set xs. j < (d::nat)"
  shows "length xs \<le> d"
proof -
  have "card (set xs) \<le> card {..<d}" using assms(2) by (intro card_mono) auto
  then show ?thesis using assms(1) by (simp add: distinct_card)
qed

lemma rdi_Some [simp]: "0 \<le> i \<Longrightarrow> nat i < length xs \<Longrightarrow> rdi xs i = Some (xs ! nat i)"
  by (simp add: rdi_def)

lemma wri_Some [simp]: "0 \<le> i \<Longrightarrow> nat i < length xs \<Longrightarrow> wri xs i v = Some (xs[nat i := v])"
  by (simp add: wri_def)


subsection \<open>Arithmetic of \<open>hfloat\<close> on finite values\<close>

lemma hf_Fin_simps [simp]:
  "Fin a < Fin b \<longleftrightarrow> a < b" "Fin a * Fin b = Fin (a * b)" "Fin a + Fin b = Fin (a + b)"
  "b \<noteq> 0 \<Longrightarrow> Fin a / Fin b = Fin (a / b)" "PInf < Fin a \<longleftrightarrow> False" "Fin a < PInf"
  "0 < a \<Longrightarrow> PInf * Fin a = PInf"
  by (simp_all add: hf_inf_def)

lemma hf_le_Fin [simp]: "Fin a \<le> Fin b \<longleftrightarrow> a \<le> b"
  by (auto simp: less_eq_hfloat_def)




subsection \<open>C1: the choice between the two sorts\<close>

text \<open>The heap-based sort is a parameter that \<open>chooseFinal_groups\<close> never calls.\<close>

lemma chooseFinal_groups_quad:
  "chooseFinal_groups fuel K maxheapsort s = chooseFinal_groups fuel K maxheapsort' s"
  unfolding chooseFinal_groups_def use_heap_sort_def use_quad_sort_def Let_def
    not_True_eq_False if_True if_False
  by (rule refl)

lemma chooseFinal_groups_quad_flag:
  assumes "chooseFinal_groups fuel K maxheapsort s = Inr (quad, choose_ok, s1)"
  shows "quad"
  using assms
  by (auto simp: chooseFinal_groups_def Let_def use_quad_sort_def use_heap_sort_def
        split: sum.splits)

text \<open>
  C1 claims that the heap-based sort forms the groups when \<open>workCount\<close>, after the
  reduction, exceeds the threshold of about 100.  The comment of the source says so and its
  counters count such a call as a heap one, but \<open>use_quad_sort\<close> is set to \<open>true\<close>
  whatever the count is.  On the row with 120 candidates, all of them kept by the
  reduction, \<open>use_heap_sort\<close> is false, the groups are formed by
  \<open>chooseFinalWorkGroupQuad\<close> (in \<open>workGroup\<close>; \<open>alt_workGroup\<close> and
  \<open>sorted_workData\<close> of the heap-based code stay empty), and the call is counted in
  \<open>num_heap_chuzc\<close>.
\<close>

theorem chooseFinal_quad_above_threshold:
  "use_heap_sort 120 = False
   \<and> chooseFinal_groups 10 example_constants maxheapsort (many_candidates 120)
       = Inr (True, Some True, (many_candidates 120)\<lparr>workGroup := [0, 120], num_heap_chuzc := 1,
           sum_heap_chuzc_size := 120, max_heap_chuzc_size := 120\<rparr>)"
proof -
  have "chooseFinal_groups 10 example_constants (\<lambda>v i n. (v, i)) (many_candidates 120)
       = Inr (True, Some True, (many_candidates 120)\<lparr>workGroup := [0, 120], num_heap_chuzc := 1,
           sum_heap_chuzc_size := 120, max_heap_chuzc_size := 120\<rparr>)"
    by code_simp
  then show ?thesis
    by (simp add: chooseFinal_groups_quad [where maxheapsort = maxheapsort
            and maxheapsort' = "\<lambda>v i n. (v, i)"]
          use_heap_sort_def use_quad_sort_def)
qed

subsection \<open>C2: the candidates and the step length of choosePossible\<close>

lemma candidates_upto_Suc:
  "candidates_upto s (Suc k) =
     (if cand_alpha s k > Ta_of (update_count s) then candidates_upto s k @ [k]
      else candidates_upto s k)"
  by (simp add: candidates_upto_def)

lemma candidates_upto_length: "length (candidates_upto s k) \<le> k"
  using length_filter_le [of "\<lambda>i. cand_alpha s i > Ta_of (update_count s)" "[0..<k]"]
  by (simp add: candidates_upto_def)

lemma Ta_of_pos: "0 < Ta_of uc"
  by (simp add: Ta_of_def)

lemma theta_update:
  assumes "0 < (a::real)"
  shows "(if t * a > r then r / a else t) = min t (r / a)"
  using assms by (auto simp: min_def pos_divide_less_eq pos_le_divide_eq not_less)

lemma choosePossible_step:
  assumes ok: "pack_ok s" and k: "k < packCount s" and inv: "possible_inv s k t"
  shows "\<exists>t'. choosePossible_body (Fin (Ta_of (update_count s))) (dual_feasibility_tolerance s)
                 (if workDelta s < 0 then - 1 else 1) k t = Some t'
     \<and> possible_inv s (Suc k) t'"
proof -
  let ?Ta = "Ta_of (update_count s)"
  let ?C = "candidates_upto s k"
  let ?f = "\<lambda>i. (packIndex s ! i, Fin (cand_alpha s i))"
  from inv obtain th wc wd where t: "t = s\<lparr>workTheta := th, workCount := wc, workData := wd\<rparr>"
    by (auto simp: possible_inv_def)
  from inv t have len: "length wd = length (workData s)" and wc: "wc = length ?C"
    and tk: "take wc wd = map ?f ?C"
    and th: "th = (if ?C = [] then PInf else Fin (Min (cand_ratio s ` set ?C)))"
    by (auto simp: possible_inv_def)
  have b: "k < length (packIndex s)" "k < length (packValue s)" "0 \<le> packIndex s ! k"
    "nat (packIndex s ! k) < length (workMove s)" "nat (packIndex s ! k) < length (workDual s)"
    using ok k by (auto simp: pack_ok_def)
  have wl: "wc < length wd"
    using candidates_upto_length [of s k] wc len ok k by (simp add: pack_ok_def)
  show ?thesis
  proof (cases "cand_alpha s k > ?Ta")
    case False
    then have "choosePossible_body (Fin ?Ta) (dual_feasibility_tolerance s)
                 (if workDelta s < 0 then - 1 else 1) k t = Some t"
      using b by (simp add: choosePossible_body_def t cand_alpha_def Let_def)
    moreover have "possible_inv s (Suc k) t"
      using inv False by (auto simp: possible_inv_def candidates_upto_Suc)
    ultimately show ?thesis by blast
  next
    case True
    then have pos: "0 < cand_alpha s k" using Ta_of_pos [of "update_count s"] by simp
    let ?a = "cand_alpha s k"
    let ?r = "cand_ratio s k * ?a"
    let ?th' = "if th * Fin ?a > Fin ?r then Fin ?r / Fin ?a else th"
    let ?t' = "s\<lparr>workTheta := ?th', workCount := Suc wc, workData := wd[wc := ?f k]\<rparr>"
    have r: "?r = workDual s ! nat (packIndex s ! k) * of_int (workMove s ! nat (packIndex s ! k))
               + dual_feasibility_tolerance s"
      using pos by (simp add: cand_ratio_def mult.commute)
    have body: "choosePossible_body (Fin ?Ta) (dual_feasibility_tolerance s)
                 (if workDelta s < 0 then - 1 else 1) k t = Some ?t'"
      using b True wl unfolding r
      by (simp add: choosePossible_body_def t cand_alpha_def Let_def)
    have th': "?th' = Fin (Min (cand_ratio s ` set (?C @ [k])))"
    proof (cases "?C = []")
      case True
      then show ?thesis using th pos by (simp add: hf_inf_def)
    next
      case False
      let ?m = "Min (cand_ratio s ` set ?C)"
      have "?th' = Fin (if ?m * ?a > ?r then ?r / ?a else ?m)" using th False pos by simp
      also have "(if ?m * ?a > ?r then ?r / ?a else ?m) = min ?m (?r / ?a)"
        by (rule theta_update [OF pos])
      also have "?r / ?a = cand_ratio s k" using pos by simp
      also have "min ?m (cand_ratio s k) = Min (cand_ratio s ` set (?C @ [k]))"
        using False by (simp add: min.commute)
      finally show ?thesis .
    qed
    have "possible_inv s (Suc k) ?t'"
      unfolding possible_inv_def
    proof (intro conjI)
      show "\<exists>th wc wd. ?t' = s\<lparr>workTheta := th, workCount := wc, workData := wd\<rparr>" by blast
      show "length (workData ?t') = length (workData s)" using len by simp
      show "workCount ?t' = length (candidates_upto s (Suc k))"
        using True wc by (simp add: candidates_upto_Suc)
      show "take (workCount ?t') (workData ?t')
          = map ?f (candidates_upto s (Suc k))"
        using True wl tk by (simp add: candidates_upto_Suc take_Suc_update)
      show "workTheta ?t' = (if candidates_upto s (Suc k) = [] then PInf
                        else Fin (Min (cand_ratio s ` set (candidates_upto s (Suc k)))))"
        using True th' by (simp add: candidates_upto_Suc)
    qed
    with body show ?thesis by blast
  qed
qed

text \<open>The loop of \<open>choosePossible\<close> returns with its invariant.\<close>

lemma choosePossible_inv:
  assumes "pack_ok s"
  shows "\<exists>t. choosePossible s = Some t \<and> possible_inv s (packCount s) t"
proof -
  let ?s0 = "s\<lparr>workTheta := PInf, workCount := 0\<rparr>"
  have "\<exists>t. for_loop 0 (packCount s)
            (choosePossible_body (Fin (Ta_of (update_count s))) (dual_feasibility_tolerance s)
               (if workDelta s < 0 then - 1 else 1)) ?s0 = Some t
      \<and> possible_inv s (packCount s) t"
  proof (rule for_loop_rule)
    have "\<exists>th wc wd. ?s0 = s\<lparr>workTheta := th, workCount := wc, workData := wd\<rparr>"
      by (rule exI [of _ PInf], rule exI [of _ 0], rule exI [of _ "workData s"]) simp
    then show "possible_inv s 0 ?s0"
      by (simp add: possible_inv_def candidates_upto_def)
    show "0 \<le> packCount s" by simp
    show "\<And>k t. 0 \<le> k \<Longrightarrow> k < packCount s \<Longrightarrow> possible_inv s k t \<Longrightarrow>
        \<exists>t'. choosePossible_body (Fin (Ta_of (update_count s))) (dual_feasibility_tolerance s)
                 (if workDelta s < 0 then - 1 else 1) k t = Some t'
           \<and> possible_inv s (Suc k) t'"
      using choosePossible_step [OF assms] by blast
  qed
  then obtain t where l: "for_loop 0 (packCount s)
            (choosePossible_body (Fin (Ta_of (update_count s))) (dual_feasibility_tolerance s)
               (if workDelta s < 0 then - 1 else 1)) ?s0 = Some t"
    and inv: "possible_inv s (packCount s) t" by blast
  have e: "(if update_count s < 10 then Fin (1 / 10 ^ 9)
            else if update_count s < 20 then Fin (3 / 10 ^ 8) else Fin (1 / 10 ^ 6))
      = Fin (Ta_of (update_count s))"
    by (simp add: Ta_of_def)
  have r: "choosePossible s = Some t"
    unfolding choosePossible_def Let_def e by (rule l)
  show ?thesis using r inv by blast
qed



subsection \<open>C3: writing a basis file and reading it back\<close>

lemma digit_char_props:
  assumes "d < 10"
  shows "isdigit (digit_char d)" "\<not> isspace (digit_char d)" "digit_val (digit_char d) = d"
    "digit_char d \<noteq> CHR ''-''" "digit_char d \<noteq> CHR ''+''"
proof -
  have c: "(of_char (digit_char d) :: nat) = 48 + d"
    using assms by (simp add: digit_char_def)
  show "isdigit (digit_char d)" using assms c by (simp add: isdigit_def)
  show "\<not> isspace (digit_char d)" using assms c by (simp add: isspace_def)
  show "digit_val (digit_char d) = d" using c by (simp add: digit_val_def)
  show "digit_char d \<noteq> CHR ''-''"
  proof
    assume "digit_char d = CHR ''-''"
    then have "(of_char (digit_char d) :: nat) = 45" by simp
    with c show False by simp
  qed
  show "digit_char d \<noteq> CHR ''+''"
  proof
    assume "digit_char d = CHR ''+''"
    then have "(of_char (digit_char d) :: nat) = 43" by simp
    with c show False by simp
  qed
qed

lemma show_nat_digits: "\<forall>ch \<in> set (show_nat n). isdigit ch \<and> \<not> isspace ch"
proof (induction n rule: show_nat.induct)
  case (1 n)
  show ?case
  proof (cases "n < 10")
    case True
    then show ?thesis by (subst show_nat.simps) (simp add: digit_char_props)
  next
    case False
    then show ?thesis using 1 by (subst show_nat.simps) (simp add: digit_char_props)
  qed
qed

lemma show_nat_nonempty: "show_nat n \<noteq> []"
  by (subst show_nat.simps) simp

lemma show_nat_hd: "hd (show_nat n) \<noteq> CHR ''-'' \<and> hd (show_nat n) \<noteq> CHR ''+''"
proof (induction n rule: show_nat.induct)
  case (1 n)
  show ?case
  proof (cases "n < 10")
    case True
    then show ?thesis by (subst (1 2) show_nat.simps) (simp add: digit_char_props)
  next
    case False
    then show ?thesis using 1 show_nat_nonempty [of "n div 10"]
      by (subst (1 2) show_nat.simps) simp
  qed
qed

lemma parse_nat_snoc: "parse_nat (ds @ [ch]) = 10 * parse_nat ds + digit_val ch"
  by (simp add: parse_nat_def)

lemma parse_show_nat: "parse_nat (show_nat n) = n"
proof (induction n rule: show_nat.induct)
  case (1 n)
  show ?case
  proof (cases "n < 10")
    case True
    then show ?thesis by (subst show_nat.simps) (simp add: parse_nat_def digit_char_props)
  next
    case False
    then show ?thesis using 1
      by (subst show_nat.simps) (simp add: parse_nat_snoc digit_char_props)
  qed
qed

text \<open>Reading back a number that is followed by white space.\<close>

lemma extract_int_show_nat:
  assumes "good s" and "buf s = ws @ show_nat n @ ch # rest"
    and "\<forall>x \<in> set ws. isspace x" and "isspace ch" and "n < 2 ^ 31"
  shows "extract_int var s = (Some (int n), s\<lparr>buf := ch # rest\<rparr>)"
proof -
  have nd: "\<not> isdigit ch" using assms(4) by (auto simp: isspace_def isdigit_def Let_def)
  have dw: "dropWhile isspace (buf s) = show_nat n @ ch # rest"
  proof -
    obtain x xs where sn: "show_nat n = x # xs" using show_nat_nonempty [of n] by (cases "show_nat n") auto
    then have "\<not> isspace x" using show_nat_digits [of n] by simp
    then show ?thesis using assms(2,3) sn by (simp add: dropWhile_append3)
  qed
  have se: "sentry s = (s\<lparr>buf := show_nat n @ ch # rest\<rparr>, True)"
    using assms(1) dw show_nat_nonempty [of n] by (simp add: sentry_def Let_def)
  have hd: "hd (show_nat n @ ch # rest) = hd (show_nat n)"
    using show_nat_nonempty [of n] by simp
  have tw: "takeWhile isdigit (show_nat n @ ch # rest) = show_nat n"
    using show_nat_digits [of n] nd by (simp add: takeWhile_tail)
  have dd: "dropWhile isdigit (show_nat n @ ch # rest) = ch # rest"
    using show_nat_digits [of n] nd by (simp add: dropWhile_append2)
  have e: "eofbit s = False" using assms(1) by (simp add: good_def)
  have fits: "\<not> int n > kHighsIntMax" "\<not> int n < kHighsIntMin"
    using assms(5) by (simp_all add: kHighsIntMax_def kHighsIntMin_def)
  show ?thesis
    using show_nat_hd [of n] show_nat_nonempty [of n] e fits
    by (simp add: extract_int_def se Let_def hd tw dd parse_show_nat)
qed

lemma show_int_uint: "show_int (uint (w :: 8 word)) = show_nat (unat w)"
  by (simp add: show_int_def)

lemma good_buf_update [simp]: "good (s\<lparr>buf := b\<rparr>) = good s"
  by (simp add: good_def)

lemma read_status_step:
  assumes "k < length ss" "read_inv ss tail k st"
  shows "\<exists>st'. read_status k st = Some st' \<and> read_inv ss tail (Suc k) st'"
proof -
  obtain s v status where st: "st = (s, v, status)" by (cases st)
  from assms(2) obtain ws where g: "good s" and ws: "\<forall>x \<in> set ws. isspace x"
    and b: "buf s = ws @ status_items (drop k ss) @ tail"
    and len: "length status = length ss" and tk: "take k status = take k ss"
    by (auto simp: read_inv_def st)
  have d: "drop k ss = ss ! k # drop (Suc k) ss" using assms(1) by (simp add: Cons_nth_drop_Suc)
  have b': "buf s = ws @ show_nat (unat (ss ! k)) @ CHR '' '' # (status_items (drop (Suc k) ss) @ tail)"
    using b by (simp add: d status_items_def show_int_uint)
  have sp: "isspace CHR '' ''" by (simp add: isspace_def)
  have e: "extract_int v s
      = (Some (int (unat (ss ! k))), s\<lparr>buf := CHR '' '' # (status_items (drop (Suc k) ss) @ tail)\<rparr>)"
  proof (rule extract_int_show_nat [OF g b' ws sp])
    have "unat (ss ! k) < 2 ^ 8" using unsigned_less [of "ss ! k"] by simp
    then show "unat (ss ! k) < 2 ^ 31" by simp
  qed
  have r: "read_status k st
      = Some (s\<lparr>buf := CHR '' '' # (status_items (drop (Suc k) ss) @ tail)\<rparr>,
              Some (int (unat (ss ! k))), status[k := ss ! k])"
    using assms(1) len by (simp add: read_status_def st e)
  have x: "\<exists>ws. (\<forall>x \<in> set ws. isspace x)
        \<and> CHR '' '' # status_items (drop (Suc k) ss) @ tail
           = ws @ status_items (drop (Suc k) ss) @ tail"
    by (rule exI [of _ "'' ''"]) (simp add: sp)
  have y: "take (Suc k) (status[k := ss ! k]) = take (Suc k) ss"
    using assms(1) len tk by (simp add: take_Suc_conv_app_nth)
  have "read_inv ss tail (Suc k)
      (s\<lparr>buf := CHR '' '' # (status_items (drop (Suc k) ss) @ tail)\<rparr>,
       Some (int (unat (ss ! k))), status[k := ss ! k])"
    using x y g len by (simp add: read_inv_def)
  with r show ?thesis by blast
qed

lemma read_loop:
  assumes "good s" "buf s = ws @ status_items ss @ tail" "\<forall>x \<in> set ws. isspace x"
    "length status = length ss"
  shows "\<exists>s' v' ws'. for_loop 0 (length ss) read_status (s, v, status) = Some (s', v', ss)
     \<and> good s' \<and> (\<forall>x \<in> set ws'. isspace x) \<and> buf s' = ws' @ tail"
proof -
  have "\<exists>t. for_loop 0 (length ss) read_status (s, v, status) = Some t
      \<and> read_inv ss tail (length ss) t"
  proof (rule for_loop_rule)
    show "read_inv ss tail 0 (s, v, status)"
      using assms by (auto simp: read_inv_def)
    show "0 \<le> length ss" by simp
    show "\<And>k t. 0 \<le> k \<Longrightarrow> k < length ss \<Longrightarrow> read_inv ss tail k t \<Longrightarrow>
        \<exists>t'. read_status k t = Some t' \<and> read_inv ss tail (Suc k) t'"
      using read_status_step by blast
  qed
  then obtain s' v' st' where l: "for_loop 0 (length ss) read_status (s, v, status) = Some (s', v', st')"
    and inv: "read_inv ss tail (length ss) (s', v', st')" by (metis prod_cases3)
  from inv have "length st' = length ss" "take (length ss) st' = take (length ss) ss"
    by (simp_all add: read_inv_def)
  then have "st' = ss" by simp
  with l inv show ?thesis by (auto simp: read_inv_def status_items_def)
qed

lemma extract_string_word:
  assumes "good s" and "buf s = ws @ w @ ch # rest" and "\<forall>x \<in> set ws. isspace x"
    and "w \<noteq> []" and "\<forall>x \<in> set w. \<not> isspace x" and "isspace ch"
  shows "extract_string s = s\<lparr>buf := ch # rest\<rparr>"
proof -
  obtain x xs where w: "w = x # xs" using assms(4) by (cases w) auto
  have dw: "dropWhile isspace (buf s) = w @ ch # rest"
    using assms(2,3,5) w by (simp add: dropWhile_append3)
  have se: "sentry s = (s\<lparr>buf := w @ ch # rest\<rparr>, True)"
    using assms(1,4) dw by (simp add: sentry_def Let_def)
  have dd: "dropWhile (\<lambda>c. \<not> isspace c) (w @ ch # rest) = ch # rest"
    using assms(5,6) by (simp add: dropWhile_append2)
  have e: "eofbit s = False" using assms(1) by (simp add: good_def)
  show ?thesis using e by (simp add: extract_string_def se Let_def dd)
qed

lemma HighsInt_of_size_small: "n < 2 ^ 31 \<Longrightarrow> HighsInt_of_size n = int n"
  unfolding HighsInt_of_size_def by simp

lemma basis_text_read:
  assumes "length (col_status basis) = length (col_status B)"
    and "length (row_status basis) = length (row_status B)"
    and "length (col_status B) < 2 ^ 31" and "length (row_status B) < 2 ^ 31"
  shows "readBasisFile (fs\<lparr>readable := (readable fs)(filename \<mapsto> basis_text 1 B)\<rparr>) basis filename
     = Some (kOk, basis\<lparr>col_status := col_status B, row_status := row_status B\<rparr>)"
proof -
  let ?LF = "CHR 0x0A"
  let ?nc = "length (col_status B)" and ?nr = "length (row_status B)"
  let ?t5 = "[?LF, ?LF]"
  let ?t4 = "?LF # status_items (row_status B) @ ?t5"
  let ?t3 = "?LF # status_items (col_status B) @ ?t4"
  let ?t2 = "CHR '' '' # show_nat ?nr @ ?t3"
  let ?t1 = "?LF # show_nat ?nc @ ?t2"
  let ?t0 = "CHR '' '' # show_nat 1 @ ?t1"
  let ?s = "\<lparr>buf = basis_text 1 B, eofbit = False, failbit = False\<rparr>"
  have sp: "isspace CHR '' ''" "isspace ?LF" by (simp_all add: isspace_def)
  have g: "good ?s" by (simp add: good_def)
  have btx: "basis_text 1 B = ''HiGHS'' @ CHR '' '' # (''Version'' @ ?t0)"
    by (simp add: basis_text_def status_items_def show_int_def)
  have e1: "extract_string ?s = ?s\<lparr>buf := CHR '' '' # (''Version'' @ ?t0)\<rparr>"
    using extract_string_word [where s = ?s and ws = "[]" and w = "''HiGHS''"
        and ch = "CHR '' ''" and rest = "''Version'' @ ?t0"]
    by (simp add: good_def isspace_def btx)
  have e2: "extract_string (?s\<lparr>buf := CHR '' '' # (''Version'' @ ?t0)\<rparr>) = ?s\<lparr>buf := ?t0\<rparr>"
    using extract_string_word [where s = "?s\<lparr>buf := CHR '' '' # (''Version'' @ ?t0)\<rparr>"
        and ws = "'' ''" and w = "''Version''" and ch = "CHR '' ''" and rest = "show_nat 1 @ ?t1"]
    by (simp add: good_def isspace_def)
  have e3: "extract_int None (?s\<lparr>buf := ?t0\<rparr>) = (Some 1, ?s\<lparr>buf := ?t1\<rparr>)"
    using extract_int_show_nat [where s = "?s\<lparr>buf := ?t0\<rparr>" and ws = "'' ''" and n = 1
        and ch = ?LF and rest = "show_nat ?nc @ ?t2" and var = None] sp
    by (simp add: good_def)
  have e4: "extract_int None (?s\<lparr>buf := ?t1\<rparr>) = (Some (int ?nc), ?s\<lparr>buf := ?t2\<rparr>)"
    using extract_int_show_nat [where s = "?s\<lparr>buf := ?t1\<rparr>" and ws = "[?LF]" and n = ?nc
        and ch = "CHR '' ''" and rest = "show_nat ?nr @ ?t3" and var = None] sp assms(3)
    by (simp add: good_def)
  have e5: "extract_int None (?s\<lparr>buf := ?t2\<rparr>) = (Some (int ?nr), ?s\<lparr>buf := ?t3\<rparr>)"
    using extract_int_show_nat [where s = "?s\<lparr>buf := ?t2\<rparr>" and ws = "'' ''" and n = ?nr
        and ch = ?LF and rest = "status_items (col_status B) @ ?t4" and var = None] sp assms(4)
    by (simp add: good_def)
  from read_loop [where s = "?s\<lparr>buf := ?t3\<rparr>" and ws = "[?LF]" and ss = "col_status B"
      and tail = ?t4 and status = "col_status basis" and v = None]
  obtain s1 v1 ws1 where
    l1: "for_loop 0 ?nc read_status (?s\<lparr>buf := ?t3\<rparr>, None, col_status basis)
           = Some (s1, v1, col_status B)"
    and g1: "good s1" and ws1: "\<forall>x \<in> set ws1. isspace x" and b1: "buf s1 = ws1 @ ?t4"
    using assms(1) sp by (auto simp: good_def)
  from read_loop [where s = s1 and ws = "ws1 @ [?LF]" and ss = "row_status B"
      and tail = ?t5 and status = "row_status basis" and v = v1]
  obtain s2 v2 where
    l2: "for_loop 0 ?nr read_status (s1, v1, row_status basis) = Some (s2, v2, row_status B)"
    and g2: "good s2"
    using assms(2) sp g1 ws1 b1 by auto
  have e: "eofbit s2 = False" using g2 by (simp add: good_def)
  show ?thesis
    using assms e1 e2 e3 e4 e5 l1 l2 e
    by (simp add: readBasisFile_def Let_def HighsInt_of_size_small)
qed

text \<open>
  C3 claims that \<open>writeBasisFile\<close> returns \<open>kOk\<close> for every valid basis and that a
  subsequent \<open>readBasisFile\<close> restores the statuses.  \<open>writeBasisFile\<close> returns \<open>kError\<close>
  when the file cannot be opened for writing, whatever the basis; and it returns \<open>kOk\<close>
  when the file opens and keeps nothing of what is written, as \<^verbatim>\<open>/dev/null\<close> does:
  \<open>readBasisFile\<close> then finds an empty text and reads its version number from a variable
  that was never set.
\<close>

theorem writeBasisFile_unwritable_counterexample:
  "valid example_basis
   \<and> writeBasisFile 1 example_fs example_basis ''no/such/dir/b.bas'' = (kError, example_fs)
   \<and> fst (writeBasisFile 1 example_fs example_basis ''/dev/null'') = kOk
   \<and> readBasisFile (snd (writeBasisFile 1 example_fs example_basis ''/dev/null''))
        example_basis ''/dev/null'' = None"
  by (simp add: writeBasisFile_def example_basis_def example_fs_def readBasisFile_def
        extract_string_def extract_int_def sentry_def good_def Let_def)

text \<open>
  C3, amended.  For every valid basis \<open>B\<close>, \<open>writeBasisFile\<close> returns \<open>kError\<close> when the
  file cannot be opened for writing and \<open>kOk\<close> when it can.  With
  \<^verbatim>\<open>HIGHS_VERSION_MAJOR\<close> equal to \<open>1\<close>: if the file can be opened for writing and
  afterwards holds the text written to it, a subsequent \<open>readBasisFile\<close> of that file into
  a basis whose \<open>col_status\<close> and \<open>row_status\<close> have the sizes of those of \<open>B\<close> (sizes
  that fit \<^verbatim>\<open>HighsInt\<close>) returns \<open>kOk\<close> and leaves that basis with exactly the column
  and row statuses of \<open>B\<close> (its other field untouched).
\<close>

theorem basis_file_round_trip:
  assumes "valid B"
  shows "(\<not> writable fs filename
            \<longrightarrow> writeBasisFile version_major fs B filename = (kError, fs))
     \<and> (writable fs filename \<longrightarrow> fst (writeBasisFile version_major fs B filename) = kOk)
     \<and> (writable fs filename
          \<and> stored fs filename (basis_text 1 B) = Some (basis_text 1 B)
          \<and> length (col_status basis) = length (col_status B)
          \<and> length (row_status basis) = length (row_status B)
          \<and> length (col_status B) < 2 ^ 31 \<and> length (row_status B) < 2 ^ 31
        \<longrightarrow> readBasisFile (snd (writeBasisFile 1 fs B filename)) basis filename
              = Some (kOk, basis\<lparr>col_status := col_status B, row_status := row_status B\<rparr>))"
proof (intro conjI impI)
  show "writeBasisFile version_major fs B filename = (kError, fs)" if "\<not> writable fs filename"
    using that by (simp add: writeBasisFile_def)
  show "fst (writeBasisFile version_major fs B filename) = kOk" if "writable fs filename"
    using that assms by (simp add: writeBasisFile_def)
  show "readBasisFile (snd (writeBasisFile 1 fs B filename)) basis filename
      = Some (kOk, basis\<lparr>col_status := col_status B, row_status := row_status B\<rparr>)"
    if a: "writable fs filename
          \<and> stored fs filename (basis_text 1 B) = Some (basis_text 1 B)
          \<and> length (col_status basis) = length (col_status B)
          \<and> length (row_status basis) = length (row_status B)
          \<and> length (col_status B) < 2 ^ 31 \<and> length (row_status B) < 2 ^ 31"
  proof -
    from a assms have "snd (writeBasisFile 1 fs B filename)
        = fs\<lparr>readable := (readable fs)(filename \<mapsto> basis_text 1 B)\<rparr>"
      by (simp add: writeBasisFile_def)
    with a basis_text_read [of basis B fs filename] show ?thesis by simp
  qed
qed

theorem basis_file_round_trip_witness:
  "valid example_basis
   \<and> \<not> writable example_fs ''no/such/dir/b.bas''
   \<and> writeBasisFile 1 example_fs example_basis ''no/such/dir/b.bas'' = (kError, example_fs)
   \<and> writable example_fs ''basis.bas''
   \<and> stored example_fs ''basis.bas'' (basis_text 1 example_basis)
       = Some (basis_text 1 example_basis)
   \<and> fst (writeBasisFile 1 example_fs example_basis ''basis.bas'') = kOk
   \<and> readBasisFile (snd (writeBasisFile 1 example_fs example_basis ''basis.bas''))
        \<lparr>valid = False, col_status = [kLower, kLower], row_status = [kLower]\<rparr> ''basis.bas''
      = Some (kOk, \<lparr>valid = False, col_status = [kBasic, kLower], row_status = [kUpper]\<rparr>)"
proof -
  let ?b = "\<lparr>valid = False, col_status = [kLower, kLower], row_status = [kLower]\<rparr>"
  have h1: "valid example_basis" by (simp add: example_basis_def)
  have h2: "\<not> writable example_fs ''no/such/dir/b.bas''" by (simp add: example_fs_def)
  have h3: "writable example_fs ''basis.bas''
          \<and> stored example_fs ''basis.bas'' (basis_text 1 example_basis)
              = Some (basis_text 1 example_basis)
          \<and> length (col_status ?b) = length (col_status example_basis)
          \<and> length (row_status ?b) = length (row_status example_basis)
          \<and> length (col_status example_basis) < 2 ^ 31
          \<and> length (row_status example_basis) < 2 ^ 31"
    by (simp add: example_fs_def example_basis_def)
  note T = basis_file_round_trip [OF h1, of example_fs _ 1 ?b]
  from T [of "''no/such/dir/b.bas''", THEN conjunct1, THEN mp, OF h2]
  have a: "writeBasisFile 1 example_fs example_basis ''no/such/dir/b.bas'' = (kError, example_fs)" .
  from h3 T [of "''basis.bas''", THEN conjunct2, THEN conjunct1, THEN mp]
  have b: "fst (writeBasisFile 1 example_fs example_basis ''basis.bas'') = kOk" by blast
  from T [of "''basis.bas''", THEN conjunct2, THEN conjunct2, THEN mp, OF h3]
  have c: "readBasisFile (snd (writeBasisFile 1 example_fs example_basis ''basis.bas'')) ?b
      ''basis.bas''
      = Some (kOk, \<lparr>valid = False, col_status = [kBasic, kLower], row_status = [kUpper]\<rparr>)"
    by (simp add: example_basis_def)
  from h1 h2 h3 a b c show ?thesis by blast
qed

subsection \<open>C4: the three outcomes of cleanBounds\<close>














subsection \<open>C5: the objective value of the QP instance\<close>

text \<open>
  C5 claims that \<^verbatim>\<open>Instance::objval\<close> returns \<open>c'x + 0.5 x'Qx + offset\<close>.  The source
  never reads \<open>offset\<close>: on the instance of dimension one with \<open>c = 0\<close>, a matrix whose
  \<open>vec_mat\<close> is the zero vector and \<open>offset = 1\<close>, at \<open>x = 0\<close>, it returns \<open>0\<close>, where the
  objective of the model is \<open>1\<close>.
\<close>

theorem objval_omits_offset:
  "objval (\<lambda>m x. Some (Vector_new 1))
     \<lparr>num_var = 1, num_con = 0, offset = 1, c = Vector_new 1, Q = (), con_lo = [],
      con_up = [], A = (), var_lo = [0], var_up = [0]\<rparr> (Vector_new 1) = Some 0
   \<and> offset \<lparr>num_var = 1, num_con = 0, offset = 1, c = Vector_new 1, Q = (), con_lo = [],
      con_up = [], A = (), var_lo = [0], var_up = [0]\<rparr> = (1::real)"
  by (simp add: objval_def dot_def Vector_new_def)

lemma objval_ignores_offset: "objval vec_mat (inst\<lparr>offset := k\<rparr>) x = objval vec_mat inst x"
  by (simp add: objval_def split: option.splits)

subsection \<open>C6: the index guard of changeLpMatrixCoefficient\<close>

text \<open>
  What the guard does reject: a negative index, a row index above \<open>num_row\<close> and a
  column index above \<open>num_col\<close> give \<open>kError\<close> and the LP as it was.
\<close>

lemma changeLpMatrixCoefficient_rejects:
  "row < 0 \<or> row > num_row lp \<or> col < 0 \<or> col > num_col lp \<Longrightarrow>
   changeLpMatrixCoefficient lp row col new_value = Some (kError, lp)"
  by (auto simp: changeLpMatrixCoefficient_def)

text \<open>
  The column index \<open>num_col\<close> passes the guard; the column's end is then read at
  \<open>start[num_col + 1]\<close>, outside an array of \<open>num_col + 1\<close> entries.
\<close>

lemma changeLpMatrixCoefficient_col_num_col:
  assumes "0 \<le> row" "row \<le> num_row lp" "0 \<le> num_col lp"
    and "length (m_start (a_matrix lp)) = nat (num_col lp) + 1"
  shows "changeLpMatrixCoefficient lp row (num_col lp) new_value = None"
  using assms by (simp add: changeLpMatrixCoefficient_def rdi_def rd_def nat_add_distrib)

text \<open>
  C6 claims that \<open>changeLpMatrixCoefficient\<close> answers \<open>kError\<close> and leaves the LP
  unchanged whenever \<open>row\<close> is outside \<open>[0, num_row)\<close>.  The guard of the source is
  \<^verbatim>\<open>row > lp.num_row_\<close>, so \<open>row = num_row\<close> passes: on the LP with one column and one
  row, the call with \<open>row = 1\<close>, \<open>col = 0\<close> returns \<open>kOk\<close> and stores an entry with row
  index \<open>1\<close> in the matrix.
\<close>

theorem changeLpMatrixCoefficient_accepts_row_num_row:
  "changeLpMatrixCoefficient example_lp 1 0 7
     = Some (kOk, example_lp\<lparr>a_matrix :=
                    \<lparr>m_start = [0, 2], m_index = [0, 1], m_value = [5, 7]\<rparr>\<rparr>)
   \<and> num_row example_lp = 1"
  by code_simp

subsection \<open>C7: the pseudocosts are running means\<close>











subsection \<open>C8: the vector operations keep the packed-sparse invariant\<close>

lemma listed_nth: "i < num_nz v \<Longrightarrow> i < length (index v) \<Longrightarrow> index v ! i \<in> listed v"
  by (auto simp: listed_def in_set_conv_nth intro!: exI[of _ i])

lemma shaped_nth: "shaped v \<Longrightarrow> i < num_nz v \<Longrightarrow> index v ! i < dim v"
  using listed_nth [of i v] by (auto simp: shaped_def)

lemma reset_step:
  assumes "shaped v" "k < num_nz v" "reset_inv v k t"
  shows "\<exists>t'. reset_body k t = Some t' \<and> reset_inv v (Suc k) t'"
proof -
  have kd: "k < dim v" using assms(1,2) by (simp add: shaped_def)
  have ik: "index t ! k = index v ! k" using assms(3) kd by (simp add: reset_inv_def)
  have jd: "index v ! k < dim v" using assms(1,2) by (rule shaped_nth)
  have len: "length (index v) = dim v" using assms(1) by (simp add: shaped_def)
  show ?thesis
    using assms(3) kd ik jd len
    by (auto simp: reset_body_def reset_inv_def take_Suc_set nth_list_update)
qed

lemma reset_ok:
  assumes "shaped v" "packed v"
  shows "\<exists>v'. reset v = Some v' \<and> shaped v' \<and> packed v' \<and> dim v' = dim v \<and> num_nz v' = 0
     \<and> (\<forall>j < dim v. value v' ! j = 0)"
proof -
  have "\<exists>t. for_loop 0 (num_nz v) reset_body v = Some t \<and> reset_inv v (num_nz v) t"
  proof (rule for_loop_rule)
    show "reset_inv v 0 v" using assms(1) by (simp add: reset_inv_def shaped_def)
    show "0 \<le> num_nz v" by simp
    show "\<And>k t. 0 \<le> k \<Longrightarrow> k < num_nz v \<Longrightarrow> reset_inv v k t \<Longrightarrow>
        \<exists>t'. reset_body k t = Some t' \<and> reset_inv v (Suc k) t'"
      using reset_step [OF assms(1)] by blast
  qed
  then obtain t where l: "for_loop 0 (num_nz v) reset_body v = Some t"
    and inv: "reset_inv v (num_nz v) t" by blast
  have z: "\<forall>j < dim v. value t ! j = 0"
    using inv assms by (auto simp: reset_inv_def packed_def listed_def shaped_def)
  have "shaped (t\<lparr>num_nz := 0\<rparr>)" using inv by (simp add: shaped_def reset_inv_def listed_def)
  moreover have "packed (t\<lparr>num_nz := 0\<rparr>)" using inv z by (simp add: packed_def reset_inv_def)
  ultimately show ?thesis using l inv z by (simp add: reset_def reset_inv_def)
qed

lemma sanitize_step:
  assumes "shaped v" "k < num_nz v" "sanitize_inv eps v k st"
  shows "\<exists>st'. sanitize_body eps k st = Some st' \<and> sanitize_inv eps v (Suc k) st'"
proof -
  obtain t n where st: "st = (t, n)" by (cases st)
  have kd: "k < dim v" using assms(1,2) by (simp add: shaped_def)
  have len: "length (index v) = dim v" using assms(1) by (simp add: shaped_def)
  have ik: "index t ! k = index v ! k" using assms(3) kd by (simp add: sanitize_inv_def st)
  have jd: "index v ! k < dim v" using assms(1,2) by (rule shaped_nth)
  have notin: "index v ! k \<notin> set (take k (index v))"
  proof -
    have "distinct (take (Suc k) (index v))"
      using assms(1,2) distinct_take [of "take (num_nz v) (index v)" "Suc k"]
      by (simp add: shaped_def min_def)
    then show ?thesis using kd len by (simp add: take_Suc_conv_app_nth)
  qed
  have vk: "value t ! (index v ! k) = value v ! (index v ! k)"
    using assms(3) jd notin by (simp add: sanitize_inv_def st)
  show ?thesis
  proof (cases "eps < \<bar>value v ! (index v ! k)\<bar>")
    case True
    have nk: "n \<le> k" and lt: "length (index t) = dim v"
      using assms(3) by (simp_all add: sanitize_inv_def st)
    have tk: "take (Suc n) ((index t)[n := index v ! k]) = take n (index t) @ [index v ! k]"
      using nk kd lt by (simp add: take_Suc_update)
    show ?thesis
      using assms(3) True kd ik jd len vk tk
      by (auto simp: sanitize_body_def sanitize_inv_def st take_Suc_conv_app_nth [of k "index v"])
  next
    case False
    have nk: "n \<le> k" using assms(3) by (simp add: sanitize_inv_def st)
    show ?thesis
      using assms(3) False kd ik jd len vk nk
      by (auto simp: sanitize_body_def sanitize_inv_def st take_Suc_conv_app_nth [of k "index v"]
            nth_list_update)
  qed
qed

lemma sanitize_ok:
  assumes "shaped v"
  shows "\<exists>v'. sanitize eps v = Some v' \<and> shaped v' \<and> dim v' = dim v
     \<and> take (num_nz v') (index v') = filter (\<lambda>j. eps < \<bar>value v ! j\<bar>) (take (num_nz v) (index v))
     \<and> (\<forall>j < dim v. value v' ! j =
          (if j \<in> listed v \<and> \<bar>value v ! j\<bar> \<le> eps then 0 else value v ! j))"
proof -
  have "\<exists>st. for_loop 0 (num_nz v) (sanitize_body eps) (v, 0) = Some st
      \<and> sanitize_inv eps v (num_nz v) st"
  proof (rule for_loop_rule)
    show "sanitize_inv eps v 0 (v, 0)" using assms by (simp add: sanitize_inv_def shaped_def)
    show "0 \<le> num_nz v" by simp
    show "\<And>k t. 0 \<le> k \<Longrightarrow> k < num_nz v \<Longrightarrow> sanitize_inv eps v k t \<Longrightarrow>
        \<exists>t'. sanitize_body eps k t = Some t' \<and> sanitize_inv eps v (Suc k) t'"
      using sanitize_step [OF assms] by blast
  qed
  then obtain t n where l: "for_loop 0 (num_nz v) (sanitize_body eps) (v, 0) = Some (t, n)"
    and inv: "sanitize_inv eps v (num_nz v) (t, n)" by (metis surj_pair)
  have tk: "take n (index t) = filter (\<lambda>j. eps < \<bar>value v ! j\<bar>) (take (num_nz v) (index v))"
    using inv by (simp add: sanitize_inv_def)
  have "shaped (t\<lparr>num_nz := n\<rparr>)"
    using inv assms tk by (auto simp: shaped_def sanitize_inv_def listed_def)
  then show ?thesis using l inv tk by (simp add: sanitize_def sanitize_inv_def listed_def)
qed

lemma sanitize_packed:
  assumes "shaped v" "packed v" "sanitize eps v = Some v'"
  shows "packed v'"
proof -
  from sanitize_ok [OF assms(1), of eps] assms(3)
  have sh: "shaped v'" and d: "dim v' = dim v"
    and tk: "take (num_nz v') (index v') = filter (\<lambda>j. eps < \<bar>value v ! j\<bar>) (take (num_nz v) (index v))"
    and vals: "\<forall>j < dim v. value v' ! j =
          (if j \<in> listed v \<and> \<bar>value v ! j\<bar> \<le> eps then 0 else value v ! j)"
    by auto
  show ?thesis
    unfolding packed_def
  proof (intro allI impI)
    fix i assume i: "i < length (value v')" and nz: "value v' ! i \<noteq> 0"
    have id: "i < dim v" using i sh d by (simp add: shaped_def)
    with vals nz have a: "\<not> (i \<in> listed v \<and> \<bar>value v ! i\<bar> \<le> eps)" and b: "value v ! i \<noteq> 0"
      by (auto split: if_splits)
    from b assms(1,2) id have "i \<in> listed v" by (simp add: packed_def shaped_def)
    with a have "eps < \<bar>value v ! i\<bar>" by simp
    with \<open>i \<in> listed v\<close> show "i \<in> listed v'" by (simp add: listed_def tk)
  qed
qed

lemma resparsify_step:
  assumes "length (value v) = dim v" "k < dim v" "resparsify_inv v k t"
  shows "\<exists>t'. resparsify_body k t = Some t' \<and> resparsify_inv v (Suc k) t'"
  using assms
  by (auto simp: resparsify_body_def resparsify_inv_def take_Suc_update)

lemma resparsify_ok:
  assumes "length (index v) = dim v" "length (value v) = dim v"
  shows "\<exists>v'. resparsify v = Some v' \<and> shaped v' \<and> packed v' \<and> dim v' = dim v
     \<and> value v' = value v
     \<and> take (num_nz v') (index v') = filter (\<lambda>i. value v ! i \<noteq> 0) [0..<dim v]"
proof -
  have "\<exists>t. for_loop 0 (dim v) resparsify_body (v\<lparr>num_nz := 0\<rparr>) = Some t
      \<and> resparsify_inv v (dim v) t"
  proof (rule for_loop_rule)
    show "resparsify_inv v 0 (v\<lparr>num_nz := 0\<rparr>)" using assms by (simp add: resparsify_inv_def)
    show "0 \<le> dim v" by simp
    show "\<And>k t. 0 \<le> k \<Longrightarrow> k < dim v \<Longrightarrow> resparsify_inv v k t \<Longrightarrow>
        \<exists>t'. resparsify_body k t = Some t' \<and> resparsify_inv v (Suc k) t'"
      using resparsify_step [OF assms(2)] by blast
  qed
  then obtain t where l: "resparsify v = Some t" and inv: "resparsify_inv v (dim v) t"
    by (auto simp: resparsify_def)
  have "shaped t" using inv assms by (auto simp: shaped_def resparsify_inv_def listed_def)
  moreover have "packed t" using inv assms by (auto simp: packed_def resparsify_inv_def listed_def)
  ultimately show ?thesis using l inv by (simp add: resparsify_inv_def)
qed

lemma repopulate_step:
  assumes "shaped other" "dim other = dim v" "k < num_nz other" "repopulate_inv v other k t"
  shows "\<exists>t'. repopulate_body other k t = Some t' \<and> repopulate_inv v other (Suc k) t'"
proof -
  have kd: "k < dim v" using assms(1,2,3) by (simp add: shaped_def)
  have len: "length (index other) = dim v" "length (value other) = dim v"
    using assms(1,2) by (simp_all add: shaped_def)
  have jd: "index other ! k < dim v" using shaped_nth [OF assms(1,3)] assms(2) by simp
  show ?thesis
    using assms(4) kd len jd
    by (auto simp: repopulate_body_def repopulate_inv_def take_Suc_conv_app_nth [of k "index other"]
          take_Suc_update nth_list_update)
qed

lemma repopulate_ok:
  assumes "shaped v" "packed v" "shaped other" "dim other = dim v"
  shows "\<exists>v'. repopulate v other = Some v' \<and> shaped v' \<and> packed v' \<and> dim v' = dim v"
proof -
  from reset_ok [OF assms(1,2)] obtain v1 where r: "reset v = Some v1" and s1: "shaped v1"
    and d1: "dim v1 = dim v" and z1: "\<forall>j < dim v. value v1 ! j = 0" by blast
  have "\<exists>t. for_loop 0 (num_nz other) (repopulate_body other) v1 = Some t
      \<and> repopulate_inv v other (num_nz other) t"
  proof (rule for_loop_rule)
    show "repopulate_inv v other 0 v1" using s1 d1 z1 by (simp add: repopulate_inv_def shaped_def)
    show "0 \<le> num_nz other" by simp
    show "\<And>k t. 0 \<le> k \<Longrightarrow> k < num_nz other \<Longrightarrow> repopulate_inv v other k t \<Longrightarrow>
        \<exists>t'. repopulate_body other k t = Some t' \<and> repopulate_inv v other (Suc k) t'"
      using repopulate_step [OF assms(3,4)] by blast
  qed
  then obtain t where l: "for_loop 0 (num_nz other) (repopulate_body other) v1 = Some t"
    and inv: "repopulate_inv v other (num_nz other) t" by blast
  have "shaped (t\<lparr>num_nz := num_nz other\<rparr>)"
    using inv assms(3,4) by (simp add: shaped_def repopulate_inv_def listed_def)
  moreover have "packed (t\<lparr>num_nz := num_nz other\<rparr>)"
    using inv by (auto simp: packed_def repopulate_inv_def listed_def split: if_splits)
  ultimately show ?thesis using r l inv by (simp add: repopulate_def repopulate_inv_def)
qed

lemma unit_into_ok:
  assumes "shaped target" "packed target" "u < dim target"
  shows "\<exists>v'. unit_into d u target = Some v' \<and> shaped v' \<and> packed v' \<and> dim v' = dim target"
proof -
  from reset_ok [OF assms(1,2)] obtain t where r: "reset target = Some t" and s1: "shaped t"
    and d1: "dim t = dim target" and z1: "\<forall>j < dim target. value t ! j = 0" by blast
  have len: "length (index t) = dim target" "length (value t) = dim target"
    using s1 d1 by (simp_all add: shaped_def)
  have "shaped (t\<lparr>index := (index t)[0 := u], value := (value t)[u := 1], num_nz := 1\<rparr>)"
    using len d1 assms(3) by (auto simp: shaped_def listed_def take_Suc_conv_app_nth)
  moreover have "packed (t\<lparr>index := (index t)[0 := u], value := (value t)[u := 1], num_nz := 1\<rparr>)"
    using len z1 assms(3)
    by (auto simp: packed_def listed_def take_Suc_conv_app_nth nth_list_update split: if_splits)
  ultimately show ?thesis using r len d1 assms(3) by (auto simp: unit_into_def)
qed

lemma unit_ok:
  assumes "u < d"
  shows "\<exists>v'. unit d u = Some v' \<and> shaped v' \<and> packed v' \<and> dim v' = d"
  using assms
  by (auto simp: unit_def Vector_new_def shaped_def packed_def listed_def take_Suc_conv_app_nth
        nth_list_update split: if_splits)

lemma scale_step:
  assumes "shaped v" "k < num_nz v" "scale_inv v k t"
  shows "\<exists>t'. scale_body a k t = Some t' \<and> scale_inv v (Suc k) t'"
proof -
  have kd: "k < length (index v)" using assms(1,2) by (simp add: shaped_def)
  have jd: "index v ! k < dim v" using assms(1,2) by (rule shaped_nth)
  show ?thesis
    using assms(3) kd jd by (auto simp: scale_body_def scale_inv_def nth_list_update)
qed

lemma scale_loop_ok:
  assumes "shaped v" "packed v"
  shows "\<exists>v'. for_loop 0 (num_nz v) (scale_body a) v = Some v' \<and> shaped v' \<and> packed v'
     \<and> dim v' = dim v"
proof -
  have "\<exists>t. for_loop 0 (num_nz v) (scale_body a) v = Some t \<and> scale_inv v (num_nz v) t"
  proof (rule for_loop_rule)
    show "scale_inv v 0 v" using assms(1) by (simp add: scale_inv_def shaped_def)
    show "0 \<le> num_nz v" by simp
    show "\<And>k t. 0 \<le> k \<Longrightarrow> k < num_nz v \<Longrightarrow> scale_inv v k t \<Longrightarrow>
        \<exists>t'. scale_body a k t = Some t' \<and> scale_inv v (Suc k) t'"
      using scale_step [OF assms(1)] by blast
  qed
  then obtain t where l: "for_loop 0 (num_nz v) (scale_body a) v = Some t"
    and inv: "scale_inv v (num_nz v) t" by blast
  have "shaped t" using inv assms(1) by (simp add: shaped_def scale_inv_def listed_def)
  moreover have "packed t"
    using inv assms by (auto simp: packed_def scale_inv_def listed_def shaped_def)
  ultimately show ?thesis using l inv by (simp add: scale_inv_def)
qed

lemma shaped_room:
  assumes "shaped t" "j < dim t" "j \<notin> listed t"
  shows "num_nz t < dim t"
proof (rule ccontr)
  assume "\<not> num_nz t < dim t"
  then have n: "num_nz t = dim t" using assms(1) by (simp add: shaped_def)
  have "distinct (j # take (num_nz t) (index t))"
    using assms by (simp add: shaped_def listed_def)
  moreover have "\<forall>i \<in> set (j # take (num_nz t) (index t)). i < dim t"
    using assms by (simp add: shaped_def listed_def)
  ultimately have "length (j # take (num_nz t) (index t)) \<le> dim t"
    by (rule distinct_bounded_length)
  then show False using n assms(1) by (simp add: shaped_def)
qed

lemma shaped_push:
  assumes "shaped t" "j < dim t" "j \<notin> listed t"
  shows "shaped (t\<lparr>num_nz := Suc (num_nz t), index := (index t)[num_nz t := j]\<rparr>)"
    and "listed (t\<lparr>num_nz := Suc (num_nz t), index := (index t)[num_nz t := j]\<rparr>)
          = insert j (listed t)"
proof -
  have room: "num_nz t < dim t" using assms by (rule shaped_room)
  then have tk: "take (Suc (num_nz t)) ((index t)[num_nz t := j]) = take (num_nz t) (index t) @ [j]"
    using assms(1) by (simp add: take_Suc_update shaped_def)
  show "listed (t\<lparr>num_nz := Suc (num_nz t), index := (index t)[num_nz t := j]\<rparr>)
          = insert j (listed t)"
    using tk by (simp add: listed_def)
  show "shaped (t\<lparr>num_nz := Suc (num_nz t), index := (index t)[num_nz t := j]\<rparr>)"
    using assms room tk by (auto simp: shaped_def listed_def)
qed

lemma saxpy_step:
  assumes "shaped x" "dim x = dim v" "k < num_nz x" "saxpy_inv v x k t"
  shows "\<exists>t'. saxpy_body a x k t = Some t' \<and> saxpy_inv v x (Suc k) t'"
proof -
  let ?j = "index x ! k"
  have kd: "k < length (index x)" using assms(1,3) by (simp add: shaped_def)
  have jd: "?j < dim v" using shaped_nth [OF assms(1,3)] assms(2) by simp
  have lx: "length (value x) = dim v" using assms(1,2) by (simp add: shaped_def)
  have st: "shaped t" and dt: "dim t = dim v" using assms(4) by (simp_all add: saxpy_inv_def)
  have lt: "length (value t) = dim v" "length (index t) = dim v"
    using st dt by (simp_all add: shaped_def)
  have notin: "?j \<notin> set (take k (index x))"
  proof -
    have "distinct (take (Suc k) (index x))"
      using assms(1,3) distinct_take [of "take (num_nz x) (index x)" "Suc k"]
      by (simp add: shaped_def min_def)
    then show ?thesis using kd by (simp add: take_Suc_conv_app_nth)
  qed
  have tk: "set (take (Suc k) (index x)) = insert ?j (set (take k (index x)))"
    using kd by (rule take_Suc_set)
  show ?thesis
  proof (cases "value t ! ?j = 0")
    case True
    then have nl: "?j \<notin> listed t" using assms(4) notin by (auto simp: saxpy_inv_def)
    have jt: "?j < dim t" using jd dt by simp
    note push = shaped_push [OF st jt nl]
    have room: "num_nz t < dim v" using shaped_room [OF st jt nl] dt by simp
    let ?t1 = "t\<lparr>num_nz := Suc (num_nz t), index := (index t)[num_nz t := ?j]\<rparr>"
    let ?t' = "?t1\<lparr>value := (value t)[?j := 0 + a * value x ! ?j]\<rparr>"
    have body: "saxpy_body a x k t = Some ?t'"
      using True kd jd lx lt room by (simp add: saxpy_body_def)
    have sh: "shaped ?t'" using push(1) by (simp add: shaped_def listed_def)
    have li: "listed ?t' = insert ?j (listed t)" using push(2) by (simp add: listed_def)
    have "saxpy_inv v x (Suc k) ?t'"
      unfolding saxpy_inv_def
    proof (intro conjI ballI)
      show "shaped ?t'" by (rule sh)
      show "dim ?t' = dim v" using dt by simp
      fix i assume "i \<in> listed ?t'"
      then have "i = ?j \<or> i \<in> listed t" using li by simp
      then show "value ?t' ! i \<noteq> 0 \<or> i \<in> set (take (Suc k) (index x))"
        using assms(4) tk lt by (auto simp: saxpy_inv_def nth_list_update)
    qed
    with body show ?thesis by blast
  next
    case False
    let ?t' = "t\<lparr>value := (value t)[?j := value t ! ?j + a * value x ! ?j]\<rparr>"
    have body: "saxpy_body a x k t = Some ?t'"
      using False kd jd lx lt by (simp add: saxpy_body_def)
    have sh: "shaped ?t'" using st by (simp add: shaped_def listed_def)
    have li: "listed ?t' = listed t" by (simp add: listed_def)
    have "saxpy_inv v x (Suc k) ?t'"
      unfolding saxpy_inv_def
    proof (intro conjI ballI)
      show "shaped ?t'" by (rule sh)
      show "dim ?t' = dim v" using dt by simp
      fix i assume "i \<in> listed ?t'"
      then have "i \<in> listed t" using li by simp
      then show "value ?t' ! i \<noteq> 0 \<or> i \<in> set (take (Suc k) (index x))"
        using assms(4) tk lt by (auto simp: saxpy_inv_def nth_list_update)
    qed
    with body show ?thesis by blast
  qed
qed

lemma saxpy_ok:
  assumes "shaped v" "shaped x" "dim x = dim v"
  shows "\<exists>v'. saxpy a x v = Some v' \<and> shaped v' \<and> packed v' \<and> dim v' = dim v"
proof -
  from sanitize_ok [OF assms(1), of 0] obtain v1 where s: "sanitize 0 v = Some v1"
    and s1: "shaped v1" and d1: "dim v1 = dim v"
    and tk: "take (num_nz v1) (index v1) = filter (\<lambda>j. 0 < \<bar>value v ! j\<bar>) (take (num_nz v) (index v))"
    and vals: "\<forall>j < dim v. value v1 ! j =
          (if j \<in> listed v \<and> \<bar>value v ! j\<bar> \<le> 0 then 0 else value v ! j)"
    by blast
  have init: "saxpy_inv v x 0 v1"
    unfolding saxpy_inv_def
  proof (intro conjI ballI)
    fix i assume i: "i \<in> listed v1"
    then have "i \<in> listed v" and nz: "0 < \<bar>value v ! i\<bar>" by (auto simp: listed_def tk)
    then have "i < dim v" using assms(1) by (simp add: shaped_def)
    with vals nz show "value v1 ! i \<noteq> 0 \<or> i \<in> set (take 0 (index x))" by auto
  qed (use s1 d1 in auto)
  have "\<exists>t. for_loop 0 (num_nz x) (saxpy_body a x) v1 = Some t \<and> saxpy_inv v x (num_nz x) t"
  proof (rule for_loop_rule)
    show "saxpy_inv v x 0 v1" by (rule init)
    show "0 \<le> num_nz x" by simp
    show "\<And>k t. 0 \<le> k \<Longrightarrow> k < num_nz x \<Longrightarrow> saxpy_inv v x k t \<Longrightarrow>
        \<exists>t'. saxpy_body a x k t = Some t' \<and> saxpy_inv v x (Suc k) t'"
      using saxpy_step [OF assms(2,3)] by blast
  qed
  then obtain v2 where l: "for_loop 0 (num_nz x) (saxpy_body a x) v1 = Some v2"
    and inv: "saxpy_inv v x (num_nz x) v2" by blast
  have len: "length (index v2) = dim v2" "length (value v2) = dim v2" and d2: "dim v2 = dim v"
    using inv by (simp_all add: saxpy_inv_def shaped_def)
  from resparsify_ok [OF len] obtain v3 where "resparsify v2 = Some v3" "shaped v3" "packed v3"
    "dim v3 = dim v2" by blast
  then show ?thesis using s l d2 by (simp add: saxpy_def)
qed

lemma saxpy3_ok:
  assumes "shaped v" "packed v" "shaped x" "dim x = dim v"
  shows "\<exists>v'. saxpy3 a b x v = Some v' \<and> shaped v' \<and> packed v' \<and> dim v' = dim v"
proof -
  from scale_loop_ok [OF assms(1,2), of a] obtain v1 where s: "scale a v = Some v1"
    and s1: "shaped v1" and d1: "dim v1 = dim v" by (auto simp: scale_def)
  from saxpy_ok [OF s1 assms(3), of b] assms(4) d1 s show ?thesis by (simp add: saxpy3_def)
qed

lemma dense_step:
  assumes "length (value v) = dim v" "length (value other) = dim v" "k < dim v"
    "dense_inv f v other k r"
  shows "\<exists>r'. dense_body f v other k r = Some r' \<and> dense_inv f v other (Suc k) r'"
  using assms
  by (auto simp: dense_body_def dense_inv_def take_Suc_update nth_list_update)

lemma dense_ok:
  assumes "length (value v) = dim v" "length (value other) = dim v"
  shows "\<exists>r. for_loop 0 (dim v) (dense_body f v other) (Vector_new (dim v)) = Some r
     \<and> shaped r \<and> packed r \<and> dim r = dim v
     \<and> (\<forall>i < dim v. value r ! i = f (value v ! i) (value other ! i))"
proof -
  have "\<exists>r. for_loop 0 (dim v) (dense_body f v other) (Vector_new (dim v)) = Some r
      \<and> dense_inv f v other (dim v) r"
  proof (rule for_loop_rule)
    show "dense_inv f v other 0 (Vector_new (dim v))"
      by (simp add: dense_inv_def Vector_new_def)
    show "0 \<le> dim v" by simp
    show "\<And>k t. 0 \<le> k \<Longrightarrow> k < dim v \<Longrightarrow> dense_inv f v other k t \<Longrightarrow>
        \<exists>t'. dense_body f v other k t = Some t' \<and> dense_inv f v other (Suc k) t'"
      using dense_step [OF assms] by blast
  qed
  then obtain r where l: "for_loop 0 (dim v) (dense_body f v other) (Vector_new (dim v)) = Some r"
    and inv: "dense_inv f v other (dim v) r" by blast
  have "shaped r" using inv by (auto simp: shaped_def dense_inv_def listed_def)
  moreover have "packed r" using inv by (auto simp: packed_def dense_inv_def listed_def)
  ultimately show ?thesis using l inv by (simp add: dense_inv_def)
qed

lemma map_step:
  assumes "shaped v" "k < num_nz v" "map_inv v k r"
  shows "\<exists>r'. map_body f v k r = Some r' \<and> map_inv v (Suc k) r'"
proof -
  have kd: "k < dim v" and len: "length (index v) = dim v" "length (value v) = dim v"
    using assms(1,2) by (simp_all add: shaped_def)
  have jd: "index v ! k < dim v" using assms(1,2) by (rule shaped_nth)
  show ?thesis
    using assms(3) kd len jd
    by (auto simp: map_body_def map_inv_def take_Suc_conv_app_nth [of k "index v"]
          take_Suc_update nth_list_update split: if_splits)
qed

lemma map_ok:
  assumes "shaped v"
  shows "\<exists>r. for_loop 0 (num_nz v) (map_body f v) (Vector_new (dim v)) = Some r
     \<and> shaped (r\<lparr>num_nz := num_nz v\<rparr>) \<and> packed (r\<lparr>num_nz := num_nz v\<rparr>) \<and> dim r = dim v"
proof -
  have "\<exists>r. for_loop 0 (num_nz v) (map_body f v) (Vector_new (dim v)) = Some r
      \<and> map_inv v (num_nz v) r"
  proof (rule for_loop_rule)
    show "map_inv v 0 (Vector_new (dim v))" by (simp add: map_inv_def Vector_new_def)
    show "0 \<le> num_nz v" by simp
    show "\<And>k t. 0 \<le> k \<Longrightarrow> k < num_nz v \<Longrightarrow> map_inv v k t \<Longrightarrow>
        \<exists>t'. map_body f v k t = Some t' \<and> map_inv v (Suc k) t'"
      using map_step [OF assms] by blast
  qed
  then obtain r where l: "for_loop 0 (num_nz v) (map_body f v) (Vector_new (dim v)) = Some r"
    and inv: "map_inv v (num_nz v) r" by blast
  have "shaped (r\<lparr>num_nz := num_nz v\<rparr>)"
    using inv assms by (simp add: shaped_def map_inv_def listed_def)
  moreover have "packed (r\<lparr>num_nz := num_nz v\<rparr>)"
    using inv by (simp add: packed_def map_inv_def listed_def)
  ultimately show ?thesis using l inv by (simp add: map_inv_def)
qed

lemma plus_assign_step:
  assumes "shaped other" "dim other = dim v" "k < num_nz other" "plus_assign_inv v k t"
  shows "\<exists>t'. plus_assign_body other k t = Some t' \<and> plus_assign_inv v (Suc k) t'"
proof -
  have kd: "k < length (index other)" and len: "length (value other) = dim v"
    using assms(1,2,3) by (simp_all add: shaped_def)
  have jd: "index other ! k < dim v" using shaped_nth [OF assms(1,3)] assms(2) by simp
  show ?thesis
    using assms(4) kd len jd by (auto simp: plus_assign_body_def plus_assign_inv_def)
qed

lemma plus_assign_ok:
  assumes "shaped v" "shaped other" "dim other = dim v"
  shows "\<exists>v'. plus_assign v other = Some v' \<and> shaped v' \<and> packed v' \<and> dim v' = dim v"
proof -
  have "\<exists>t. for_loop 0 (num_nz other) (plus_assign_body other) v = Some t
      \<and> plus_assign_inv v (num_nz other) t"
  proof (rule for_loop_rule)
    show "plus_assign_inv v 0 v" using assms(1) by (simp add: plus_assign_inv_def shaped_def)
    show "0 \<le> num_nz other" by simp
    show "\<And>k t. 0 \<le> k \<Longrightarrow> k < num_nz other \<Longrightarrow> plus_assign_inv v k t \<Longrightarrow>
        \<exists>t'. plus_assign_body other k t = Some t' \<and> plus_assign_inv v (Suc k) t'"
      using plus_assign_step [OF assms(2,3)] by blast
  qed
  then obtain v1 where l: "for_loop 0 (num_nz other) (plus_assign_body other) v = Some v1"
    and inv: "plus_assign_inv v (num_nz other) v1" by blast
  have len: "length (index v1) = dim v1" "length (value v1) = dim v1" and d1: "dim v1 = dim v"
    using inv by (simp_all add: plus_assign_inv_def)
  from resparsify_ok [OF len] obtain v2 where "resparsify v1 = Some v2" "shaped v2" "packed v2"
    "dim v2 = dim v1" by blast
  then show ?thesis using l d1 by (simp add: plus_assign_def)
qed

text \<open>
  C8.  Every operation of \<open>Vector\<close> that writes the vector (\<open>reset\<close>, \<open>repopulate\<close>,
  both \<open>unit\<close>, \<open>sanitize\<close>, \<open>resparsify\<close>, \<open>scale\<close>, both \<open>saxpy\<close>, binary
  \<open>+\<close> and \<open>-\<close>, unary \<open>-\<close>, \<open>*\<close> by a scalar, \<open>+=\<close>, \<open>*=\<close>) runs without an
  out-of-range access on a vector of the constructor's shape and returns a vector of that
  shape in which every position with a nonzero value is listed among the first \<open>num_nz\<close>
  index entries.  Moreover \<open>sanitize eps\<close> zeroes exactly the listed positions whose
  value has magnitude at most \<open>eps\<close> and keeps the other listed positions in order, and
  \<open>resparsify\<close> leaves the values alone and rebuilds the list as exactly the positions
  with a nonzero value, in increasing order.
\<close>

theorem Vector_writes_keep_packed:
  assumes "shaped v" and "packed v" and "shaped x" and "dim x = dim v" and "u < dim v"
  shows "(\<exists>v'. reset v = Some v' \<and> shaped v' \<and> packed v')
   \<and> (\<exists>v'. repopulate v x = Some v' \<and> shaped v' \<and> packed v')
   \<and> (\<exists>v'. unit_into n u v = Some v' \<and> shaped v' \<and> packed v')
   \<and> (\<exists>v'. unit (dim v) u = Some v' \<and> shaped v' \<and> packed v')
   \<and> (\<exists>v'. sanitize eps v = Some v' \<and> shaped v' \<and> packed v' \<and> take (num_nz v') (index v')
            = filter (\<lambda>j. eps < \<bar>value v ! j\<bar>) (take (num_nz v) (index v))
         \<and> (\<forall>j < dim v. value v' ! j =
              (if j \<in> listed v \<and> \<bar>value v ! j\<bar> \<le> eps then 0 else value v ! j)))
   \<and> (\<exists>v'. resparsify v = Some v' \<and> shaped v' \<and> packed v' \<and> value v' = value v
         \<and> take (num_nz v') (index v') = filter (\<lambda>i. value v ! i \<noteq> 0) [0..<dim v])
   \<and> (\<exists>v'. scale a v = Some v' \<and> shaped v' \<and> packed v')
   \<and> (\<exists>v'. saxpy a x v = Some v' \<and> shaped v' \<and> packed v')
   \<and> (\<exists>v'. saxpy3 a b x v = Some v' \<and> shaped v' \<and> packed v')
   \<and> (\<exists>v'. plus_vec v x = Some v' \<and> shaped v' \<and> packed v')
   \<and> (\<exists>v'. minus_vec v x = Some v' \<and> shaped v' \<and> packed v')
   \<and> (\<exists>v'. uminus_vec v = Some v' \<and> shaped v' \<and> packed v')
   \<and> (\<exists>v'. times_scalar v d = Some v' \<and> shaped v' \<and> packed v')
   \<and> (\<exists>v'. plus_assign v x = Some v' \<and> shaped v' \<and> packed v')
   \<and> (\<exists>v'. times_assign v d = Some v' \<and> shaped v' \<and> packed v')"
proof -
  have lv: "length (index v) = dim v" "length (value v) = dim v"
    using assms(1) by (simp_all add: shaped_def)
  have lx: "length (value x) = dim v" using assms(3,4) by (simp add: shaped_def)
  have 1: "\<exists>v'. reset v = Some v' \<and> shaped v' \<and> packed v'"
    using reset_ok [OF assms(1,2)] by blast
  have 2: "\<exists>v'. repopulate v x = Some v' \<and> shaped v' \<and> packed v'"
    using repopulate_ok [OF assms(1,2,3,4)] by blast
  have 3: "\<exists>v'. unit_into n u v = Some v' \<and> shaped v' \<and> packed v'"
    using unit_into_ok [OF assms(1,2,5)] by blast
  have 4: "\<exists>v'. unit (dim v) u = Some v' \<and> shaped v' \<and> packed v'"
    using unit_ok [OF assms(5)] by blast
  have 5: "\<exists>v'. sanitize eps v = Some v' \<and> shaped v' \<and> packed v'
         \<and> take (num_nz v') (index v')
            = filter (\<lambda>j. eps < \<bar>value v ! j\<bar>) (take (num_nz v) (index v))
         \<and> (\<forall>j < dim v. value v' ! j =
              (if j \<in> listed v \<and> \<bar>value v ! j\<bar> \<le> eps then 0 else value v ! j))"
    using sanitize_ok [OF assms(1), of eps] sanitize_packed [OF assms(1,2), of eps] by blast
  have 6: "\<exists>v'. resparsify v = Some v' \<and> shaped v' \<and> packed v' \<and> value v' = value v
         \<and> take (num_nz v') (index v') = filter (\<lambda>i. value v ! i \<noteq> 0) [0..<dim v]"
    using resparsify_ok [OF lv] by blast
  have 7: "\<exists>v'. scale a v = Some v' \<and> shaped v' \<and> packed v'"
    using scale_loop_ok [OF assms(1,2), of a] by (auto simp: scale_def)
  have 8: "\<exists>v'. saxpy a x v = Some v' \<and> shaped v' \<and> packed v'"
    using saxpy_ok [OF assms(1,3,4), of a] by blast
  have 9: "\<exists>v'. saxpy3 a b x v = Some v' \<and> shaped v' \<and> packed v'"
    using saxpy3_ok [OF assms(1,2,3,4), of a b] by blast
  have 10: "\<exists>v'. plus_vec v x = Some v' \<and> shaped v' \<and> packed v'"
    using dense_ok [OF lv(2) lx, of "(+)"] by (auto simp: plus_vec_def)
  have 11: "\<exists>v'. minus_vec v x = Some v' \<and> shaped v' \<and> packed v'"
    using dense_ok [OF lv(2) lx, of "(-)"] by (auto simp: minus_vec_def)
  have 12: "\<exists>v'. uminus_vec v = Some v' \<and> shaped v' \<and> packed v'"
    using map_ok [OF assms(1), of uminus] by (auto simp: uminus_vec_def)
  have 13: "\<exists>v'. times_scalar v d = Some v' \<and> shaped v' \<and> packed v'"
    using map_ok [OF assms(1), of "(*) d"] by (auto simp: times_scalar_def)
  have 14: "\<exists>v'. plus_assign v x = Some v' \<and> shaped v' \<and> packed v'"
    using plus_assign_ok [OF assms(1,3,4)] by blast
  have 15: "\<exists>v'. times_assign v d = Some v' \<and> shaped v' \<and> packed v'"
    using scale_loop_ok [OF assms(1,2), of d] by (auto simp: times_assign_def)
  show ?thesis
    by (intro conjI 1 2 3 4 5 6 7 8 9 10 11 12 13 14 15)
qed

theorem Vector_writes_keep_packed_witness:
  "shaped example_v \<and> packed example_v \<and> shaped example_x
   \<and> dim example_x = dim example_v \<and> (0::nat) < dim example_v
   \<and> (\<exists>v'. reset example_v = Some v' \<and> shaped v' \<and> packed v')
   \<and> (\<exists>v'. repopulate example_v example_x = Some v' \<and> shaped v' \<and> packed v')
   \<and> (\<exists>v'. unit_into 2 0 example_v = Some v' \<and> shaped v' \<and> packed v')
   \<and> (\<exists>v'. unit (dim example_v) 0 = Some v' \<and> shaped v' \<and> packed v')
   \<and> (\<exists>v'. sanitize 1 example_v = Some v' \<and> shaped v' \<and> packed v' \<and> take (num_nz v') (index v')
            = filter (\<lambda>j. 1 < \<bar>value example_v ! j\<bar>) (take (num_nz example_v) (index example_v))
         \<and> (\<forall>j < dim example_v. value v' ! j =
              (if j \<in> listed example_v \<and> \<bar>value example_v ! j\<bar> \<le> 1 then 0 else value example_v ! j)))
   \<and> (\<exists>v'. resparsify example_v = Some v' \<and> shaped v' \<and> packed v' \<and> value v' = value example_v
         \<and> take (num_nz v') (index v') = filter (\<lambda>i. value example_v ! i \<noteq> 0) [0..<dim example_v])
   \<and> (\<exists>v'. scale 2 example_v = Some v' \<and> shaped v' \<and> packed v')
   \<and> (\<exists>v'. saxpy 2 example_x example_v = Some v' \<and> shaped v' \<and> packed v')
   \<and> (\<exists>v'. saxpy3 2 3 example_x example_v = Some v' \<and> shaped v' \<and> packed v')
   \<and> (\<exists>v'. plus_vec example_v example_x = Some v' \<and> shaped v' \<and> packed v')
   \<and> (\<exists>v'. minus_vec example_v example_x = Some v' \<and> shaped v' \<and> packed v')
   \<and> (\<exists>v'. uminus_vec example_v = Some v' \<and> shaped v' \<and> packed v')
   \<and> (\<exists>v'. times_scalar example_v 5 = Some v' \<and> shaped v' \<and> packed v')
   \<and> (\<exists>v'. plus_assign example_v example_x = Some v' \<and> shaped v' \<and> packed v')
   \<and> (\<exists>v'. times_assign example_v 5 = Some v' \<and> shaped v' \<and> packed v')"
proof -
  have h1: "shaped example_v" by (simp add: shaped_def listed_def example_v_def)
  have h2: "packed example_v"
    by (simp add: packed_def listed_def example_v_def All_less_Suc numeral_2_eq_2)
  have h3: "shaped example_x" by (simp add: shaped_def listed_def example_x_def)
  have h4: "dim example_x = dim example_v" by (simp add: example_v_def example_x_def)
  have h5: "(0::nat) < dim example_v" by (simp add: example_v_def)
  show ?thesis
    using h1 h2 h3 h4 h5
      Vector_writes_keep_packed [OF h1 h2 h3 h4 h5, where n = 2 and eps = 1 and a = 2
        and b = 3 and d = 5]
    by blast
qed

subsection \<open>C9: a zero step length empties the flip list\<close>

























text \<open>\<open>choosePossible\<close> leaves candidates with positive values.\<close>

lemma candidates_positive_after_choosePossible:
  assumes "pack_ok s" and "choosePossible s = Some t"
  shows "candidates_positive (workCount t) t
     \<and> dual_feasibility_tolerance t = dual_feasibility_tolerance s"
proof -
  from choosePossible_inv [OF assms(1)] assms(2) have inv: "possible_inv s (packCount s) t"
    by auto
  have "0 < cand_alpha s i" if "Ta_of (update_count s) < cand_alpha s i" for i
    using that Ta_of_pos [of "update_count s"] by simp
  with inv show ?thesis
    by (auto simp: possible_inv_def candidates_positive_def positive_alpha_def
          candidates_upto_def)
qed



subsection \<open>C10: the outcomes of PresolveComponent::run\<close>

text \<open>
  C10.  \<^verbatim>\<open>PresolveComponent::run\<close> returns \<open>Infeasible\<close> when the presolve model
  status is primal infeasible, \<open>Unbounded\<close> when it is dual infeasible,
  \<open>ReducedToEmpty\<close> when it is optimal and \<open>Reduced\<close> for every other model status;
  it never returns \<open>NotReduced\<close>, \<open>NullError\<close> or \<open>Error\<close>.
\<close>

theorem PresolveComponent_run_outcomes:
  "PresolveComponent_run hpresolve_run data =
     (if hpresolve_run data = PRIMAL_INFEASIBLE then Infeasible
      else if hpresolve_run data = DUAL_INFEASIBLE then Unbounded
      else if hpresolve_run data = OPTIMAL then ReducedToEmpty
      else Reduced)
   \<and> PresolveComponent_run hpresolve_run data \<noteq> NotReduced
   \<and> PresolveComponent_run hpresolve_run data \<noteq> NullError
   \<and> PresolveComponent_run hpresolve_run data \<noteq> Error"
  by (cases "hpresolve_run data") (simp_all add: PresolveComponent_run_def)

end
